theory Spec2Isabelle
  imports Complex_Main "HOL-Library.Word" "HOL-Library.Log_Nat"
begin

unbundle bit_operations_syntax

section \<open>JavaScript numbers and their 32-bit operators\<close>

text \<open>
  A JavaScript \<^verbatim>\<open>number\<close> that holds an integer is modelled as an \<^typ>\<open>int\<close>, one that may
  hold a fraction as a \<^typ>\<open>rat\<close> (every finite double is a rational).  The bitwise
  operators first convert their operands with ToInt32/ToUint32, that is they work on the
  low 32 bits; \<^verbatim>\<open><<\<close>, \<^verbatim>\<open>&\<close>, \<^verbatim>\<open>|\<close> and \<^verbatim>\<open>^\<close> give a signed result (\<^const>\<open>sint\<close>),
  \<^verbatim>\<open>>>>\<close> an unsigned one (\<^const>\<open>uint\<close>).  Shift counts are taken modulo 32.
\<close>

definition js_shl :: "int \<Rightarrow> nat \<Rightarrow> int" where
  "js_shl a k = sint (push_bit (k mod 32) (word_of_int a :: 32 word))"

definition js_ushr :: "int \<Rightarrow> nat \<Rightarrow> int" where
  "js_ushr a k = uint (drop_bit (k mod 32) (word_of_int a :: 32 word))"

definition js_and :: "int \<Rightarrow> int \<Rightarrow> int" where
  "js_and a b = sint ((word_of_int a :: 32 word) AND word_of_int b)"

definition js_or :: "int \<Rightarrow> int \<Rightarrow> int" where
  "js_or a b = sint ((word_of_int a :: 32 word) OR word_of_int b)"

definition js_xor :: "int \<Rightarrow> int \<Rightarrow> int" where
  "js_xor a b = sint ((word_of_int a :: 32 word) XOR word_of_int b)"

text \<open>The integer part of a fractional number, rounding towards zero (the first step of
  ToInt32 and ToUint32).\<close>

definition js_trunc :: "rat \<Rightarrow> int" where
  "js_trunc q = (if 0 \<le> q then \<lfloor>q\<rfloor> else \<lceil>q\<rceil>)"

section \<open>Shared constants, conversions and assertions\<close>

definition ONE_BIT_AS_FRACT32 :: rat where
  "ONE_BIT_AS_FRACT32 = 1 / 2 ^ 32"

definition MIN_SAFE_FRACT32_INCLUSIVE :: rat where
  "MIN_SAFE_FRACT32_INCLUSIVE = 0"

definition MAX_SAFE_FRACT32_EXCLUSIVE :: rat where
  "MAX_SAFE_FRACT32_EXCLUSIVE = 1"

definition MIN_SAFE_INT32_INCLUSIVE :: int where
  "MIN_SAFE_INT32_INCLUSIVE = - (2 ^ 31)"

definition MAX_SAFE_INT32_EXCLUSIVE :: int where
  "MAX_SAFE_INT32_EXCLUSIVE = 2 ^ 31"

definition MIN_SAFE_UINT32_INCLUSIVE :: int where
  "MIN_SAFE_UINT32_INCLUSIVE = 0"

definition MAX_SAFE_UINT32_EXCLUSIVE :: int where
  "MAX_SAFE_UINT32_EXCLUSIVE = 2 ^ 32"

text \<open>\<^verbatim>\<open>(fract32 * 0x100000000) >>> 0\<close> and \<^verbatim>\<open>uint32 / 0x100000000\<close>.  Scaling a double by
  a power of two is exact, so the rational product is the double product.\<close>

definition bitwiseFract32ToUint32 :: "rat \<Rightarrow> int" where
  "bitwiseFract32ToUint32 fract32 = js_ushr (js_trunc (fract32 * 2 ^ 32)) 0"

definition bitwiseFract32ToInt32 :: "rat \<Rightarrow> int" where
  "bitwiseFract32ToInt32 fract32 = js_or (js_trunc (fract32 * 2 ^ 32)) 0"

definition bitwiseUint32ToFract32 :: "int \<Rightarrow> rat" where
  "bitwiseUint32ToFract32 uint32 = of_int uint32 / 2 ^ 32"

definition bitwiseUint32ToInt32 :: "int \<Rightarrow> int" where
  "bitwiseUint32ToInt32 uint32 = js_or uint32 0"

definition bitwiseInt32ToUint32 :: "int \<Rightarrow> int" where
  "bitwiseInt32ToUint32 int32 = js_ushr int32 0"

definition bitwiseInt32ToFract32 :: "int \<Rightarrow> rat" where
  "bitwiseInt32ToFract32 int32 = of_int (js_ushr int32 0) / 2 ^ 32"

text \<open>
  A thrown value: an instance of the built-in class \<^verbatim>\<open>Error\<close> or of its subclass
  \<^verbatim>\<open>RangeError\<close>, with its message.  The assertions below are the only places of the
  sampler and its wrappers that throw; each of them runs \<^verbatim>\<open>throw new Error(...)\<close>.
\<close>

datatype js_error = Error string | RangeError string

definition assertSafeRangeFract32 :: "rat \<Rightarrow> rat \<Rightarrow> js_error + unit" where
  "assertSafeRangeFract32 minInclusive maxExclusive =
     (if minInclusive < MIN_SAFE_FRACT32_INCLUSIVE
        then Inl (Error ''Minimum value must be at least 0.'')
      else if maxExclusive > MAX_SAFE_FRACT32_EXCLUSIVE
        then Inl (Error ''Maximum value must be less than 1.'')
      else if maxExclusive \<le> minInclusive
        then Inl (Error ''Maximum value must be greater than the given minimum value.'')
      else Inr ())"

definition assertSafeRangeInt32 :: "int \<Rightarrow> int \<Rightarrow> js_error + unit" where
  "assertSafeRangeInt32 minInclusive maxExclusive =
     (if minInclusive < MIN_SAFE_INT32_INCLUSIVE
        then Inl (Error ''Minimum value must be at least -2147483648.'')
      else if maxExclusive > MAX_SAFE_INT32_EXCLUSIVE
        then Inl (Error ''Maximum value must be less than 2147483648.'')
      else if maxExclusive \<le> minInclusive
        then Inl (Error ''Maximum value must be greater than the given minimum value.'')
      else Inr ())"

definition assertSafeRangeUint32 :: "rat \<Rightarrow> rat \<Rightarrow> js_error + unit" where
  "assertSafeRangeUint32 minInclusive maxExclusive =
     (if minInclusive < of_int MIN_SAFE_UINT32_INCLUSIVE
        then Inl (Error ''Minimum value must be at least 0.'')
      else if maxExclusive > of_int MAX_SAFE_UINT32_EXCLUSIVE
        then Inl (Error ''Maximum value must be less than 4294967296.'')
      else if maxExclusive \<le> minInclusive
        then Inl (Error ''Maximum value must be greater than the given minimum value.'')
      else Inr ())"

section \<open>The unbiased sampler\<close>

text \<open>
  A raw source \<^verbatim>\<open>() => number\<close> is a closure over hidden state (a generator's state, a
  stub's call count): a function from the state before the call to the value returned and
  the state after it.  A function that takes a source takes the current state as well and
  returns the state it leaves, so the number of invocations is visible in the result.
\<close>

type_synonym ('a, 's) source = "'s \<Rightarrow> 'a \<times> 's"

text \<open>\<^verbatim>\<open>() => convert(fn())\<close>: a source whose values are converted.\<close>

definition converted :: "('a \<Rightarrow> 'b) \<Rightarrow> ('a, 's) source \<Rightarrow> ('b, 's) source" where
  "converted convert f s = (case f s of (x, s') \<Rightarrow> (convert x, s'))"

lemma uint_drop_bit32: "uint (drop_bit n (w :: 32 word)) = uint w div 2 ^ n"
proof -
  have "unat (drop_bit n w) = drop_bit n (unat w)"
    by (rule unat_drop_bit_eq)
  also have "\<dots> = unat w div 2 ^ n"
    by (rule drop_bit_eq_div)
  finally have "int (unat (drop_bit n w)) = int (unat w) div 2 ^ n"
    by (simp only: zdiv_int of_nat_power of_nat_numeral)
  then show ?thesis by (simp only: uint_nat)
qed

lemma js_ushr_eq: "js_ushr a k = (a mod 2 ^ 32) div 2 ^ (k mod 32)"
  by (simp add: js_ushr_def uint_drop_bit32 uint_word_of_int)

lemma js_ushr_nonneg: "0 \<le> js_ushr t k"
  by (simp add: js_ushr_eq pos_imp_zdiv_nonneg_iff)

lemma js_ushr_less: "0 < t \<Longrightarrow> js_ushr t 1 < t"
proof -
  assume pos: "0 < t"
  have "t mod 2 ^ 32 \<le> t" using pos by (simp add: zmod_le_nonneg_dividend)
  then have "(t mod 2 ^ 32) div 2 \<le> t div 2" by (simp add: zdiv_mono1)
  also have "t div 2 < t" using pos by simp
  finally show ?thesis by (simp add: js_ushr_eq)
qed

text \<open>Lines 121 to 147: the loop that widens \<^verbatim>\<open>mask\<close> by one bit for every bit of
  \<^verbatim>\<open>temp\<close>.\<close>

function mask_loop :: "int \<Rightarrow> int \<Rightarrow> int" where
  "mask_loop msk temp =
     (if temp > 0 then mask_loop (js_or (js_shl msk 1) 1) (js_ushr temp 1) else msk)"
  by pat_completeness auto
termination
  by (relation "measure (\<lambda>(m, t). nat t)")
     (use js_ushr_less js_ushr_nonneg in \<open>auto simp: nat_less_iff\<close>)

declare mask_loop.simps [simp del]

text \<open>Lines 121 to 150: \<^verbatim>\<open>mask = 0; temp = range - 1; while ...; mask = mask >>> 0\<close>.\<close>

definition compute_mask :: "int \<Rightarrow> int" where
  "compute_mask rng = js_ushr (mask_loop 0 (rng - 1)) 0"

text \<open>Line 157: \<^verbatim>\<open>(value & mask) >>> 0\<close>.\<close>

definition masked :: "int \<Rightarrow> int \<Rightarrow> int" where
  "masked msk v = js_ushr (js_and v msk) 0"

text \<open>Lines 154 to 166, the \<^verbatim>\<open>do ... while (randomValue >= range)\<close> loop.  It has no
  iteration cap: on a source that never yields an acceptable value it does not return,
  which is the result \<^const>\<open>None\<close>.\<close>

partial_function (option) sample_loop ::
  "int \<Rightarrow> int \<Rightarrow> (int, 's) source \<Rightarrow> 's \<Rightarrow> (int \<times> 's) option" where
  "sample_loop rng msk randomUint32Fn s =
     (case randomUint32Fn s of (v, s') \<Rightarrow>
        let randomValue = masked msk v in
        if randomValue \<ge> rng then sample_loop rng msk randomUint32Fn s'
        else Some (randomValue, s'))"

declare sample_loop.simps [code]

definition unbiasedRandomUint32FromRange ::
  "int \<Rightarrow> (int, 's) source \<Rightarrow> 's \<Rightarrow> (int \<times> 's) option" where
  "unbiasedRandomUint32FromRange rng randomUint32Fn s =
     (if rng = 1 then Some (0, s)
      else sample_loop rng (compute_mask rng) randomUint32Fn s)"

section \<open>The ranged wrappers\<close>

text \<open>
  An omitted bound (\<^verbatim>\<open>undefined\<close> or \<^verbatim>\<open>null\<close>; the test is \<^verbatim>\<open>== null\<close>) is \<^const>\<open>None\<close>.
  A wrapper's result is \<^const>\<open>None\<close> when the sampler does not return,
  \<^term>\<open>Some (Inl e, s')\<close> when \<^term>\<open>e\<close> is thrown and \<^term>\<open>Some (Inr v, s')\<close> when
  \<^term>\<open>v\<close> is returned; \<^term>\<open>s'\<close> is the state the source is left in.

  The unsigned wrapper floors its bounds, so its bounds are rationals.  The signed wrapper
  does no rounding: its bounds are integers, the domain it is written for.  The fraction
  wrapper's additions and differences are exact on the 32-bit grid (multiples of
  \<open>2\<^sup>-\<^sup>3\<^sup>2\<close> in \<open>[0, 1]\<close>), where the rational arithmetic below is the double arithmetic.
  With a minimum off that grid the code rounds the final sum \<^verbatim>\<open>min + result * 2^-32\<close> to a
  double, whereas the sum below is exact.  The properties below state that value only for
  a result of 0, where the two agree, or as equal between two generators, where the code
  rounds equal sums alike.
\<close>

type_synonym ('a, 's) outcome = "((js_error + 'a) \<times> 's) option"

text \<open>The operator \<^verbatim>\<open>??\<close>: the left operand unless it is omitted.\<close>

definition nullish :: "'a option \<Rightarrow> 'a \<Rightarrow> 'a" where
  "nullish x d = (case x of None \<Rightarrow> d | Some v \<Rightarrow> v)"

definition unbiasedRandomFract32 ::
  "rat option \<Rightarrow> rat option \<Rightarrow> (rat, 's) source \<Rightarrow> 's \<Rightarrow> (rat, 's) outcome" where
  "unbiasedRandomFract32 minInclusive maxExclusive randomFract32Fn s =
     (if minInclusive = None \<and> maxExclusive = None
        then (case randomFract32Fn s of (x, s') \<Rightarrow> Some (Inr x, s'))
      else
        let min = nullish minInclusive MIN_SAFE_FRACT32_INCLUSIVE;
            max = nullish maxExclusive MAX_SAFE_FRACT32_EXCLUSIVE
        in case assertSafeRangeFract32 min max of
             Inl e \<Rightarrow> Some (Inl e, s)
           | Inr _ \<Rightarrow>
               let minUint32 = bitwiseFract32ToUint32 min;
                   maxUint32 = (if max = MAX_SAFE_FRACT32_EXCLUSIVE then MAX_SAFE_UINT32_EXCLUSIVE
                                else bitwiseFract32ToUint32 max);
                   randomUint32Fn = converted bitwiseFract32ToUint32 randomFract32Fn
               in (case unbiasedRandomUint32FromRange (maxUint32 - minUint32) randomUint32Fn s of
                     None \<Rightarrow> None
                   | Some (result, s') \<Rightarrow> Some (Inr (min + bitwiseUint32ToFract32 result), s')))"

definition unbiasedRandomInt32 ::
  "int option \<Rightarrow> int option \<Rightarrow> (int, 's) source \<Rightarrow> 's \<Rightarrow> (int, 's) outcome" where
  "unbiasedRandomInt32 minInclusive maxExclusive randomInt32Fn s =
     (if minInclusive = None \<and> maxExclusive = None
        then (case randomInt32Fn s of (x, s') \<Rightarrow> Some (Inr x, s'))
      else
        let min = nullish minInclusive MIN_SAFE_INT32_INCLUSIVE;
            max = nullish maxExclusive MAX_SAFE_INT32_EXCLUSIVE
        in case assertSafeRangeInt32 min max of
             Inl e \<Rightarrow> Some (Inl e, s)
           | Inr _ \<Rightarrow>
               let rangeShift = 2 ^ 31;
                   minUint32 = min + rangeShift;
                   maxUint32 = max + rangeShift;
                   randomUint32Fn = converted (\<lambda>x. x + rangeShift) randomInt32Fn
               in (case unbiasedRandomUint32FromRange (maxUint32 - minUint32) randomUint32Fn s of
                     None \<Rightarrow> None
                   | Some (result, s') \<Rightarrow> Some (Inr (js_or (min + result) 0), s')))"

definition unbiasedRandomUint32 ::
  "rat option \<Rightarrow> rat option \<Rightarrow> (int, 's) source \<Rightarrow> 's \<Rightarrow> (int, 's) outcome" where
  "unbiasedRandomUint32 minInclusive maxExclusive randomUint32Fn s =
     (if minInclusive = None \<and> maxExclusive = None
        then (case randomUint32Fn s of (x, s') \<Rightarrow> Some (Inr x, s'))
      else
        let min = nullish minInclusive (of_int MIN_SAFE_UINT32_INCLUSIVE);
            max = nullish maxExclusive (of_int MAX_SAFE_UINT32_EXCLUSIVE)
        in case assertSafeRangeUint32 min max of
             Inl e \<Rightarrow> Some (Inl e, s)
           | Inr _ \<Rightarrow>
               let rangeMin = \<lfloor>min\<rfloor>;
                   rangeMax = \<lfloor>max\<rfloor>
               in (case unbiasedRandomUint32FromRange (rangeMax - rangeMin) randomUint32Fn s of
                     None \<Rightarrow> None
                   | Some (v, s') \<Rightarrow> Some (Inr (rangeMin + v), s')))"

text \<open>
  The instrumented source of the unit tests (a stub with \<^verbatim>\<open>onFirstCall\<close>,
  \<^verbatim>\<open>onSecondCall\<close>, ... and a default): its state is its call count.
\<close>

definition stub :: "'a list \<Rightarrow> 'a \<Rightarrow> ('a, nat) source" where
  "stub xs d n = (if n < length xs then xs ! n else d, Suc n)"

text \<open>The state of a source after \<open>k\<close> invocations, and the value its next invocation
  returns then.\<close>

fun draws :: "('a, 's) source \<Rightarrow> 's \<Rightarrow> nat \<Rightarrow> 's" where
  "draws f s 0 = s"
| "draws f s (Suc k) = draws f (snd (f s)) k"

definition nth_draw :: "('a, 's) source \<Rightarrow> 's \<Rightarrow> nat \<Rightarrow> 'a" where
  "nth_draw f s k = fst (f (draws f s k))"

section \<open>Seeds\<close>

text \<open>
  A JavaScript string is a sequence of UTF-16 code units; \<^verbatim>\<open>charCodeAt(i)\<close> is the unit at
  index \<open>i\<close> as a number, and \<^verbatim>\<open>NaN\<close> past the end.  A seed is a finite number or a string
  (\<^verbatim>\<open>type Seed = number | string\<close>).
\<close>

type_synonym js_string = "16 word list"

datatype seed = NumSeed rat | StrSeed js_string

text \<open>\<^verbatim>\<open>strseed.charCodeAt(k) | 0\<close>: the code unit, and 0 (from \<^verbatim>\<open>NaN | 0\<close>) past the end.\<close>

definition charCodeAt_or0 :: "js_string \<Rightarrow> nat \<Rightarrow> int" where
  "charCodeAt_or0 str k = (if k < length str then uint (str ! k) else 0)"

text \<open>
  \<^verbatim>\<open>seedToUint32\<close>, lines 142 to 153: the loop over the characters of a string seed.  The
  intermediate \<^verbatim>\<open>(result << 5) - result + char\<close> stays far below \<open>2\<^sup>5\<^sup>3\<close>, so the double
  arithmetic is the integer arithmetic; \<^verbatim>\<open>result & result\<close> then converts with ToInt32.
\<close>

fun hash_loop :: "int \<Rightarrow> js_string \<Rightarrow> int" where
  "hash_loop result [] = result"
| "hash_loop result (c # cs) =
     (let char = uint c;
          result1 = js_shl result 5 - result + char;
          result2 = js_and result1 result1
      in hash_loop result2 cs)"

text \<open>A number seed is finite here, so \<^verbatim>\<open>Number.isFinite(seed)\<close> holds exactly for the
  number seeds.\<close>

definition seedToUint32 :: "seed \<Rightarrow> int" where
  "seedToUint32 seed =
     (case seed of
        NumSeed n \<Rightarrow> js_ushr (js_trunc n) 0
      | StrSeed strseed \<Rightarrow> hash_loop 0 strseed)"

text \<open>
  The recurrence as the specification words it: \<^verbatim>\<open>result = result*31 + charCode\<close>, wrapped
  to 32-bit two's complement at every step.
\<close>

definition wrap_int32 :: "int \<Rightarrow> int" where
  "wrap_int32 x = (x + 2 ^ 31) mod 2 ^ 32 - 2 ^ 31"

fun spec_string_hash :: "int \<Rightarrow> js_string \<Rightarrow> int" where
  "spec_string_hash result [] = result"
| "spec_string_hash result (c # cs) = spec_string_hash (wrap_int32 (result * 31 + uint c)) cs"

section \<open>Alea\<close>

text \<open>
  Alea computes with fractions.  Every arithmetic operation on doubles is written with
  its rounding: \<open>fl\<close> maps the exact result to the double the operation returns.  It is a
  parameter of the model, and nothing is assumed about it in the definitions.  The decimal
  literal \<^verbatim>\<open>2.3283064365386963e-10\<close> denotes the double \<open>2\<^sup>-\<^sup>3\<^sup>2\<close>.  \<^verbatim>\<open>String(data)\<close> of a number
  seed is the parameter \<open>numToString\<close>.
\<close>

definition seed_to_string :: "(rat \<Rightarrow> js_string) \<Rightarrow> seed \<Rightarrow> js_string" where
  "seed_to_string numToString data =
     (case data of NumSeed n \<Rightarrow> numToString n | StrSeed str \<Rightarrow> str)"

record AleaState =
  alea_c :: int
  alea_s0 :: rat
  alea_s1 :: rat
  alea_s2 :: rat

text \<open>\<^verbatim>\<open>buildMash\<close>: the closure keeps \<^verbatim>\<open>n\<close> between calls, so \<^verbatim>\<open>mash\<close> takes the current
  \<^verbatim>\<open>n\<close> and returns the next one with its result.\<close>

fun mash_loop :: "(rat \<Rightarrow> rat) \<Rightarrow> rat \<Rightarrow> js_string \<Rightarrow> rat" where
  "mash_loop fl n [] = n"
| "mash_loop fl n (ch # data) =
     (let n1 = fl (n + of_int (uint ch));
          h1 = fl (fl (2519603282416938 / 10 ^ 17) * n1);
          n2 = of_int (js_ushr (js_trunc h1) 0);
          h2 = fl (h1 - n2);
          h3 = fl (h2 * n2);
          n3 = of_int (js_ushr (js_trunc h3) 0);
          h4 = fl (h3 - n3);
          n4 = fl (n3 + fl (h4 * 4294967296))
      in mash_loop fl n4 data)"

definition mash :: "(rat \<Rightarrow> rat) \<Rightarrow> js_string \<Rightarrow> rat \<Rightarrow> rat \<times> rat" where
  "mash fl data n =
     (let n' = mash_loop fl n data
      in (fl (of_int (js_ushr (js_trunc n') 0) * (1 / 2 ^ 32)), n'))"

definition Alea_internalNextFract32 :: "(rat \<Rightarrow> rat) \<Rightarrow> AleaState \<Rightarrow> rat \<times> AleaState" where
  "Alea_internalNextFract32 fl state =
     (let t = fl (fl (2091639 * alea_s0 state) + fl (of_int (alea_c state) * (1 / 2 ^ 32)));
          state1 = state\<lparr>alea_c := js_or (js_trunc t) 0\<rparr>;
          state2 = state1\<lparr>alea_s0 := alea_s1 state1\<rparr>;
          state3 = state2\<lparr>alea_s1 := alea_s2 state2\<rparr>;
          state4 = state3\<lparr>alea_s2 := fl (t - of_int (alea_c state3))\<rparr>
      in (alea_s2 state4, state4))"

text \<open>\<^verbatim>\<open>s -= mash(seed); if (s < 0) s += 1\<close>.\<close>

definition alea_adjust :: "(rat \<Rightarrow> rat) \<Rightarrow> rat \<Rightarrow> rat \<Rightarrow> rat" where
  "alea_adjust fl s m = (let s' = fl (s - m) in if s' < 0 then fl (s' + 1) else s')"

definition Alea_buildStateFromSeed ::
  "(rat \<Rightarrow> rat) \<Rightarrow> (rat \<Rightarrow> js_string) \<Rightarrow> seed \<Rightarrow> AleaState" where
  "Alea_buildStateFromSeed fl numToString seed =
     (let n0 = 4022871197;
          (m0, n1) = mash fl [32] n0;
          (m1, n2) = mash fl [32] n1;
          (m2, n3) = mash fl [32] n2;
          state = \<lparr>alea_c = 1, alea_s0 = m0, alea_s1 = m1, alea_s2 = m2\<rparr>;
          (k0, n4) = mash fl (seed_to_string numToString seed) n3;
          state1 = state\<lparr>alea_s0 := alea_adjust fl (alea_s0 state) k0\<rparr>;
          (k1, n5) = mash fl (seed_to_string numToString seed) n4;
          state2 = state1\<lparr>alea_s1 := alea_adjust fl (alea_s1 state1) k1\<rparr>;
          (k2, n6) = mash fl (seed_to_string numToString seed) n5;
          state3 = state2\<lparr>alea_s2 := alea_adjust fl (alea_s2 state2) k2\<rparr>
      in state3)"

text \<open>The states a seeded Alea generator can be in: the seeded state, and every state an
  advance leads to from one of them.\<close>

inductive alea_reachable :: "(rat \<Rightarrow> rat) \<Rightarrow> (rat \<Rightarrow> js_string) \<Rightarrow> AleaState \<Rightarrow> bool"
  for fl numToString where
  seeded: "alea_reachable fl numToString (Alea_buildStateFromSeed fl numToString seed)"
| advanced: "alea_reachable fl numToString state \<Longrightarrow>
             alea_reachable fl numToString (snd (Alea_internalNextFract32 fl state))"

text \<open>The one fact about doubles the invariant rests on: a double holds \<open>k \<cdot> 2\<^sup>-\<^sup>3\<^sup>2\<close> exactly
  for every integer \<open>k\<close> of at most 53 bits.\<close>

definition exact_on_grid :: "(rat \<Rightarrow> rat) \<Rightarrow> bool" where
  "exact_on_grid fl \<longleftrightarrow> (\<forall>k::int. \<bar>k\<bar> \<le> 2 ^ 53 \<longrightarrow> fl (of_int k / 2 ^ 32) = of_int k / 2 ^ 32)"

definition fract32 :: "rat \<Rightarrow> bool" where
  "fract32 q \<longleftrightarrow> (\<exists>k::int. 0 \<le> k \<and> k < 2 ^ 32 \<and> q = of_int k / 2 ^ 32)"

definition alea_invariant :: "AleaState \<Rightarrow> bool" where
  "alea_invariant state \<longleftrightarrow>
     fract32 (alea_s0 state) \<and> fract32 (alea_s1 state) \<and> fract32 (alea_s2 state) \<and>
     0 \<le> alea_c state \<and> alea_c state \<le> 2091639"

section \<open>Generators as objects on a heap\<close>

text \<open>
  A generator mutates its state object in place, and two of the algorithms keep an array
  inside it, so whether two generators share state is a question of addresses.  The heap
  holds the state objects and, apart from them, the arrays they refer to; an address is an
  index into the respective list, and allocation appends.  A generator is known by the
  address of its state object (\<^verbatim>\<open>this.state\<close>), which is assigned once, by the constructor.
\<close>

type_synonym addr = nat

record 'o heap =
  objs :: "'o list"
  arrs :: "int list list"

definition new_obj :: "'o \<Rightarrow> 'o heap \<Rightarrow> addr \<times> 'o heap" where
  "new_obj v h = (length (objs h), h\<lparr>objs := objs h @ [v]\<rparr>)"

definition new_arr :: "int list \<Rightarrow> 'o heap \<Rightarrow> addr \<times> 'o heap" where
  "new_arr xs h = (length (arrs h), h\<lparr>arrs := arrs h @ [xs]\<rparr>)"

text \<open>
  A method that reads the fields of \<^verbatim>\<open>this.state\<close>, computes, and assigns the fields again:
  the computation is a function on the record of the fields, run on the object at the
  address.  A state with an array field \<^verbatim>\<open>X\<close> holds the address of the array; the
  computation is then a function on the array's contents and the record.
\<close>

definition on_state :: "('o \<Rightarrow> 'a \<times> 'o) \<Rightarrow> addr \<Rightarrow> ('a, 'o heap) source" where
  "on_state method this h =
     (case method (objs h ! this) of
        (r, state') \<Rightarrow> (r, h\<lparr>objs := (objs h)[this := state']\<rparr>))"

definition on_array_state ::
  "('o \<Rightarrow> addr) \<Rightarrow> (int list \<Rightarrow> 'o \<Rightarrow> 'a \<times> int list \<times> 'o) \<Rightarrow> addr \<Rightarrow> ('a, 'o heap) source" where
  "on_array_state X method this h =
     (let state = objs h ! this in
      case method (arrs h ! X state) state of
        (r, xs', state') \<Rightarrow>
          (r, h\<lparr>arrs := (arrs h)[X state := xs'], objs := (objs h)[this := state']\<rparr>))"

text \<open>
  What the abstract class \<^verbatim>\<open>SeededNumberGenerator<State>\<close> leaves to an algorithm: the two
  protected methods and the three public ones.  \<^verbatim>\<open>buildStateFromSeed\<close> assigns
  \<^verbatim>\<open>this.state\<close>; here it returns the address assigned.
\<close>

record 'o seeded_class =
  cloneState :: "addr \<Rightarrow> 'o heap \<Rightarrow> addr \<times> 'o heap"
  buildStateFromSeed :: "seed \<Rightarrow> 'o heap \<Rightarrow> addr \<times> 'o heap"
  nextFract32 :: "rat option \<Rightarrow> rat option \<Rightarrow> addr \<Rightarrow> 'o heap \<Rightarrow> (rat, 'o heap) outcome"
  nextInt32 :: "int option \<Rightarrow> int option \<Rightarrow> addr \<Rightarrow> 'o heap \<Rightarrow> (int, 'o heap) outcome"
  nextUint32 :: "rat option \<Rightarrow> rat option \<Rightarrow> addr \<Rightarrow> 'o heap \<Rightarrow> (int, 'o heap) outcome"

text \<open>
  The constructor's options.  A seed function is a closure over the world outside the
  heap (\<open>'w\<close>), as is the default \<^verbatim>\<open>randomSeed\<close>, which draws from \<^verbatim>\<open>crypto\<close> or
  \<^verbatim>\<open>Math.random\<close>; \<^verbatim>\<open>randomSeed\<close> is a collaborator and a parameter here.
\<close>

record 'w options =
  opt_seed :: "seed option"
  opt_seedFn :: "('w \<Rightarrow> seed \<times> 'w) option"
  opt_state :: "addr option"

text \<open>The constructor, lines 189 to 201.  It returns the address of the new generator's
  state, the world and the heap.\<close>

definition new_generator ::
  "'o seeded_class \<Rightarrow> ('w \<Rightarrow> seed \<times> 'w) \<Rightarrow> 'w options \<Rightarrow> 'w \<Rightarrow> 'o heap \<Rightarrow> addr \<times> 'w \<times> 'o heap" where
  "new_generator C randomSeed options w h =
     (case opt_state options of
        Some st \<Rightarrow> (case cloneState C st h of (this_state, h') \<Rightarrow> (this_state, w, h'))
      | None \<Rightarrow>
          (case (case opt_seed options of
                   Some sd \<Rightarrow> (sd, w)
                 | None \<Rightarrow> (case opt_seedFn options of Some seedFn \<Rightarrow> seedFn w
                                                    | None \<Rightarrow> randomSeed w)) of
             (sd, w') \<Rightarrow>
               (case buildStateFromSeed C sd h of (this_state, h') \<Rightarrow> (this_state, w', h'))))"

definition getState :: "'o seeded_class \<Rightarrow> addr \<Rightarrow> 'o heap \<Rightarrow> addr \<times> 'o heap" where
  "getState C this h = cloneState C this h"

text \<open>
  A call of one of the three public methods, with its bounds, and its result as a
  JavaScript number (the integers among the rationals).  \<open>run\<close> makes a list of calls on one
  generator; \<open>lockstep\<close> makes every call first on one generator and then on another, and
  pairs the results.  Either is \<^const>\<open>None\<close> when a call does not return.
\<close>

datatype call =
    NextFract32 "rat option" "rat option"
  | NextInt32 "int option" "int option"
  | NextUint32 "rat option" "rat option"

definition as_number :: "(int, 's) outcome \<Rightarrow> (rat, 's) outcome" where
  "as_number r = map_option (map_prod (map_sum id of_int) id) r"

definition invoke :: "'o seeded_class \<Rightarrow> call \<Rightarrow> addr \<Rightarrow> 'o heap \<Rightarrow> (rat, 'o heap) outcome" where
  "invoke C c this h =
     (case c of
        NextFract32 lo hi \<Rightarrow> nextFract32 C lo hi this h
      | NextInt32 lo hi \<Rightarrow> as_number (nextInt32 C lo hi this h)
      | NextUint32 lo hi \<Rightarrow> as_number (nextUint32 C lo hi this h))"

fun run ::
  "'o seeded_class \<Rightarrow> addr \<Rightarrow> call list \<Rightarrow> 'o heap \<Rightarrow> ((js_error + rat) list \<times> 'o heap) option" where
  "run C g [] h = Some ([], h)"
| "run C g (c # cs) h =
     (case invoke C c g h of
        None \<Rightarrow> None
      | Some (r, h1) \<Rightarrow>
          (case run C g cs h1 of
             None \<Rightarrow> None
           | Some (rs, h2) \<Rightarrow> Some (r # rs, h2)))"

fun lockstep ::
  "'o seeded_class \<Rightarrow> addr \<Rightarrow> addr \<Rightarrow> call list \<Rightarrow> 'o heap \<Rightarrow>
   (((js_error + rat) \<times> (js_error + rat)) list \<times> 'o heap) option" where
  "lockstep C a b [] h = Some ([], h)"
| "lockstep C a b (c # cs) h =
     (case invoke C c a h of
        None \<Rightarrow> None
      | Some (ra, h1) \<Rightarrow>
          (case invoke C c b h1 of
             None \<Rightarrow> None
           | Some (rb, h2) \<Rightarrow>
               (case lockstep C a b cs h2 of
                  None \<Rightarrow> None
                | Some (rs, h3) \<Rightarrow> Some ((ra, rb) # rs, h3))))"

section \<open>The algorithms with a flat state\<close>

text \<open>
  The seeding procedures share two tests on the seed.  \<^verbatim>\<open>seed === (numberSeed | 0)\<close> holds
  for a number seed that is an integer of 32 bits, and for no string seed (a string is not
  \<^verbatim>\<open>===\<close> to a number); \<^verbatim>\<open>seed === Math.floor(numberSeed)\<close> holds for a number seed that is
  an integer.  Otherwise the seed is taken as a string, \<^verbatim>\<open>'' + seed\<close>.

  Where seeding discards values with \<^verbatim>\<open>this.nextFract32()\<close> or \<^verbatim>\<open>this.nextInt32()\<close>, the call
  has no bounds and so amounts to one invocation of the internal step, which is what the
  loops below run.
\<close>

definition is_int32_seed :: "seed \<Rightarrow> bool" where
  "is_int32_seed seed =
     (case seed of NumSeed n \<Rightarrow> n = of_int (js_or (js_trunc n) 0) | StrSeed str \<Rightarrow> False)"

definition is_integer_seed :: "seed \<Rightarrow> bool" where
  "is_integer_seed seed =
     (case seed of NumSeed n \<Rightarrow> n = of_int \<lfloor>n\<rfloor> | StrSeed str \<Rightarrow> False)"

text \<open>The number a number seed holds, as an integer (used only where the seed is known to
  be one).\<close>

definition seed_number :: "seed \<Rightarrow> rat" where
  "seed_number seed = (case seed of NumSeed n \<Rightarrow> n | StrSeed str \<Rightarrow> 0)"

text \<open>\<^verbatim>\<open>Math.imul\<close>: the low 32 bits of the product, signed.\<close>

definition Math_imul :: "int \<Rightarrow> int \<Rightarrow> int" where
  "Math_imul a b = sint ((word_of_int a :: 32 word) * word_of_int b)"

text \<open>\<^verbatim>\<open>{...state}\<close>: a new object with the same fields.\<close>

definition spread_state :: "addr \<Rightarrow> 'o heap \<Rightarrow> addr \<times> 'o heap" where
  "spread_state state h = new_obj (objs h ! state) h"

subsection \<open>Mulberry32\<close>

text \<open>\<^verbatim>\<open>this.state.seed += 0x6d2b79f5\<close> is an addition of doubles and never wraps: the field
  grows with every call, and past \<open>2\<^sup>5\<^sup>3\<close> the sum is rounded (\<open>fl\<close>).\<close>

record Mulberry32State =
  mulberry32_seed :: rat

definition Mulberry32_internalNextUint32 ::
  "(rat \<Rightarrow> rat) \<Rightarrow> Mulberry32State \<Rightarrow> int \<times> Mulberry32State" where
  "Mulberry32_internalNextUint32 fl state =
     (let state1 = state\<lparr>mulberry32_seed := fl (mulberry32_seed state + 1831565813)\<rparr>;
          t = js_trunc (mulberry32_seed state1);
          t1 = Math_imul (js_xor t (js_ushr t 15)) (js_or t 1);
          t2 = js_xor t1 (t1 + Math_imul (js_xor t1 (js_ushr t1 7)) (js_or t1 61))
      in (js_ushr (js_xor t2 (js_ushr t2 14)) 0, state1))"

definition Mulberry32_buildStateFromSeed :: "seed \<Rightarrow> Mulberry32State" where
  "Mulberry32_buildStateFromSeed seed = \<lparr>mulberry32_seed = of_int (seedToUint32 seed)\<rparr>"

definition Mulberry32 :: "(rat \<Rightarrow> rat) \<Rightarrow> Mulberry32State seeded_class" where
  "Mulberry32 fl =
     \<lparr>cloneState = spread_state,
      buildStateFromSeed = (\<lambda>seed. new_obj (Mulberry32_buildStateFromSeed seed)),
      nextFract32 = (\<lambda>minInclusive maxExclusive this.
        unbiasedRandomFract32 minInclusive maxExclusive
          (converted bitwiseUint32ToFract32 (on_state (Mulberry32_internalNextUint32 fl) this))),
      nextInt32 = (\<lambda>minInclusive maxExclusive this.
        unbiasedRandomInt32 minInclusive maxExclusive
          (converted bitwiseUint32ToInt32 (on_state (Mulberry32_internalNextUint32 fl) this))),
      nextUint32 = (\<lambda>minInclusive maxExclusive this.
        unbiasedRandomUint32 minInclusive maxExclusive
          (on_state (Mulberry32_internalNextUint32 fl) this))\<rparr>"

subsection \<open>Tyche-i\<close>

record TycheiState =
  tychei_a :: int
  tychei_b :: int
  tychei_c :: int
  tychei_d :: int

definition Tychei_internalNextInt32 :: "TycheiState \<Rightarrow> int \<times> TycheiState" where
  "Tychei_internalNextInt32 state =
     (let a = tychei_a state; b = tychei_b state; c = tychei_c state; d = tychei_d state;
          b1 = js_xor (js_xor (js_shl b 25) (js_ushr b 7)) c;
          c1 = js_or (c - d) 0;
          d1 = js_xor (js_xor (js_shl d 24) (js_ushr d 8)) a;
          a1 = js_or (a - b1) 0;
          b2 = js_xor (js_xor (js_shl b1 20) (js_ushr b1 12)) c1;
          c2 = js_or (c1 - d1) 0;
          d2 = js_xor (js_xor (js_shl d1 16) (js_ushr c2 16)) a1;
          a2 = js_or (a1 - b2) 0
      in (a2, \<lparr>tychei_a = a2, tychei_b = b2, tychei_c = c2, tychei_d = d2\<rparr>))"

definition Tychei_buildStateFromSeed :: "(rat \<Rightarrow> js_string) \<Rightarrow> seed \<Rightarrow> TycheiState" where
  "Tychei_buildStateFromSeed numToString seed =
     (let state = \<lparr>tychei_a = 0, tychei_b = 0, tychei_c = js_or 2654435769 0,
                   tychei_d = 1367130551\<rparr>;
          state1 = (if is_integer_seed seed
                    then state\<lparr>tychei_a := js_or (js_trunc (seed_number seed / 4294967296)) 0,
                               tychei_b := js_or (js_trunc (seed_number seed)) 0\<rparr>
                    else state);
          strseed = (if is_integer_seed seed then [] else seed_to_string numToString seed)
      in fold (\<lambda>k st. snd (Tychei_internalNextInt32
                              (st\<lparr>tychei_b := js_xor (tychei_b st) (charCodeAt_or0 strseed k)\<rparr>)))
              [0 ..< length strseed + 20] state1)"

definition Tychei :: "(rat \<Rightarrow> js_string) \<Rightarrow> TycheiState seeded_class" where
  "Tychei numToString =
     \<lparr>cloneState = spread_state,
      buildStateFromSeed = (\<lambda>seed. new_obj (Tychei_buildStateFromSeed numToString seed)),
      nextFract32 = (\<lambda>minInclusive maxExclusive this.
        unbiasedRandomFract32 minInclusive maxExclusive
          (converted bitwiseInt32ToFract32 (on_state Tychei_internalNextInt32 this))),
      nextInt32 = (\<lambda>minInclusive maxExclusive this.
        unbiasedRandomInt32 minInclusive maxExclusive (on_state Tychei_internalNextInt32 this)),
      nextUint32 = (\<lambda>minInclusive maxExclusive this.
        unbiasedRandomUint32 minInclusive maxExclusive
          (converted bitwiseInt32ToUint32 (on_state Tychei_internalNextInt32 this)))\<rparr>"

subsection \<open>Xor128\<close>

record Xor128State =
  xor128_w :: int
  xor128_x :: int
  xor128_y :: int
  xor128_z :: int

definition Xor128_internalNextInt32 :: "Xor128State \<Rightarrow> int \<times> Xor128State" where
  "Xor128_internalNextInt32 state =
     (let t = js_xor (xor128_x state) (js_shl (xor128_x state) 11);
          state1 = state\<lparr>xor128_x := xor128_y state\<rparr>;
          state2 = state1\<lparr>xor128_y := xor128_z state1\<rparr>;
          state3 = state2\<lparr>xor128_z := xor128_w state2\<rparr>;
          state4 = state3\<lparr>xor128_w :=
                     js_xor (xor128_w state3)
                       (js_xor (js_xor (js_ushr (xor128_w state3) 19) t) (js_ushr t 8))\<rparr>
      in (xor128_w state4, state4))"

definition Xor128_buildStateFromSeed :: "(rat \<Rightarrow> js_string) \<Rightarrow> seed \<Rightarrow> Xor128State" where
  "Xor128_buildStateFromSeed numToString seed =
     (let state = \<lparr>xor128_w = 0, xor128_x = 0, xor128_y = 0, xor128_z = 0\<rparr>;
          state1 = (if is_int32_seed seed
                    then state\<lparr>xor128_x := js_trunc (seed_number seed)\<rparr>
                    else state);
          strseed = (if is_int32_seed seed then [] else seed_to_string numToString seed)
      in fold (\<lambda>k st. snd (Xor128_internalNextInt32
                              (st\<lparr>xor128_x := js_xor (xor128_x st) (charCodeAt_or0 strseed k)\<rparr>)))
              [0 ..< length strseed + 64] state1)"

definition Xor128 :: "(rat \<Rightarrow> js_string) \<Rightarrow> Xor128State seeded_class" where
  "Xor128 numToString =
     \<lparr>cloneState = spread_state,
      buildStateFromSeed = (\<lambda>seed. new_obj (Xor128_buildStateFromSeed numToString seed)),
      nextFract32 = (\<lambda>minInclusive maxExclusive this.
        unbiasedRandomFract32 minInclusive maxExclusive
          (converted bitwiseInt32ToFract32 (on_state Xor128_internalNextInt32 this))),
      nextInt32 = (\<lambda>minInclusive maxExclusive this.
        unbiasedRandomInt32 minInclusive maxExclusive (on_state Xor128_internalNextInt32 this)),
      nextUint32 = (\<lambda>minInclusive maxExclusive this.
        unbiasedRandomUint32 minInclusive maxExclusive
          (converted bitwiseInt32ToUint32 (on_state Xor128_internalNextInt32 this)))\<rparr>"

subsection \<open>XorWow\<close>

record XorWowState =
  xorwow_d :: int
  xorwow_v :: int
  xorwow_w :: int
  xorwow_x :: int
  xorwow_y :: int
  xorwow_z :: int

definition XorWow_internalNextInt32 :: "XorWowState \<Rightarrow> int \<times> XorWowState" where
  "XorWow_internalNextInt32 state =
     (let t = js_xor (xorwow_x state) (js_ushr (xorwow_x state) 2);
          state1 = state\<lparr>xorwow_x := xorwow_y state\<rparr>;
          state2 = state1\<lparr>xorwow_y := xorwow_z state1\<rparr>;
          state3 = state2\<lparr>xorwow_z := xorwow_w state2\<rparr>;
          state4 = state3\<lparr>xorwow_w := xorwow_v state3\<rparr>;
          state5 = state4\<lparr>xorwow_d := js_or (xorwow_d state4 + 362437) 0\<rparr>;
          state6 = state5\<lparr>xorwow_v :=
                     js_xor (js_xor (xorwow_v state5) (js_shl (xorwow_v state5) 4))
                            (js_xor t (js_shl t 1))\<rparr>
      in (js_or (xorwow_d state6 + xorwow_v state6) 0, state6))"

definition XorWow_buildStateFromSeed :: "(rat \<Rightarrow> js_string) \<Rightarrow> seed \<Rightarrow> XorWowState" where
  "XorWow_buildStateFromSeed numToString seed =
     (let state = \<lparr>xorwow_d = 0, xorwow_v = 0, xorwow_w = 0, xorwow_x = 0, xorwow_y = 0,
                   xorwow_z = 0\<rparr>;
          state1 = (if is_int32_seed seed
                    then state\<lparr>xorwow_x := js_trunc (seed_number seed)\<rparr>
                    else state);
          strseed = (if is_int32_seed seed then [] else seed_to_string numToString seed)
      in fold (\<lambda>k st.
                 let st1 = st\<lparr>xorwow_x := js_xor (xorwow_x st) (charCodeAt_or0 strseed k)\<rparr>;
                     st2 = (if k = length strseed
                            then st1\<lparr>xorwow_d := js_xor (js_shl (xorwow_x st1) 10)
                                                         (js_ushr (xorwow_x st1) 4)\<rparr>
                            else st1)
                 in snd (XorWow_internalNextInt32 st2))
              [0 ..< length strseed + 64] state1)"

definition XorWow :: "(rat \<Rightarrow> js_string) \<Rightarrow> XorWowState seeded_class" where
  "XorWow numToString =
     \<lparr>cloneState = spread_state,
      buildStateFromSeed = (\<lambda>seed. new_obj (XorWow_buildStateFromSeed numToString seed)),
      nextFract32 = (\<lambda>minInclusive maxExclusive this.
        unbiasedRandomFract32 minInclusive maxExclusive
          (converted bitwiseInt32ToFract32 (on_state XorWow_internalNextInt32 this))),
      nextInt32 = (\<lambda>minInclusive maxExclusive this.
        unbiasedRandomInt32 minInclusive maxExclusive (on_state XorWow_internalNextInt32 this)),
      nextUint32 = (\<lambda>minInclusive maxExclusive this.
        unbiasedRandomUint32 minInclusive maxExclusive
          (converted bitwiseInt32ToUint32 (on_state XorWow_internalNextInt32 this)))\<rparr>"

subsection \<open>Alea as a class\<close>

definition Alea :: "(rat \<Rightarrow> rat) \<Rightarrow> (rat \<Rightarrow> js_string) \<Rightarrow> AleaState seeded_class" where
  "Alea fl numToString =
     \<lparr>cloneState = spread_state,
      buildStateFromSeed = (\<lambda>seed. new_obj (Alea_buildStateFromSeed fl numToString seed)),
      nextFract32 = (\<lambda>minInclusive maxExclusive this.
        unbiasedRandomFract32 minInclusive maxExclusive
          (on_state (Alea_internalNextFract32 fl) this)),
      nextInt32 = (\<lambda>minInclusive maxExclusive this.
        unbiasedRandomInt32 minInclusive maxExclusive
          (converted bitwiseFract32ToInt32 (on_state (Alea_internalNextFract32 fl) this))),
      nextUint32 = (\<lambda>minInclusive maxExclusive this.
        unbiasedRandomUint32 minInclusive maxExclusive
          (converted bitwiseFract32ToUint32 (on_state (Alea_internalNextFract32 fl) this)))\<rparr>"

section \<open>The algorithms with an array in their state\<close>

text \<open>
  An array is the list of its elements.  Reading past the end (or at a negative index) gives
  \<^verbatim>\<open>undefined\<close>, here \<^const>\<open>None\<close>; a bitwise operator takes \<^verbatim>\<open>undefined\<close> as 0.  Writing at
  the end extends the array by one element.  A write further out would leave holes; every
  write of the two algorithms is inside the array or at its end, and the padding with 0
  below is never reached from a state the classes build.
\<close>

definition js_get :: "int list \<Rightarrow> int \<Rightarrow> int option" where
  "js_get xs k = (if 0 \<le> k \<and> nat k < length xs then Some (xs ! nat k) else None)"

definition or0 :: "int option \<Rightarrow> int" where
  "or0 x = (case x of None \<Rightarrow> 0 | Some v \<Rightarrow> v)"

definition js_set :: "int list \<Rightarrow> int \<Rightarrow> int \<Rightarrow> int list" where
  "js_set xs k v =
     (if nat k < length xs then xs[nat k := v]
      else xs @ replicate (nat k - length xs) 0 @ [v])"

subsection \<open>XorShift7\<close>

record XorShift7State =
  xs7_X :: addr
  xs7_i :: int

text \<open>The computation of \<^verbatim>\<open>internalNextInt32\<close> on the contents of \<^verbatim>\<open>X\<close> and on \<^verbatim>\<open>i\<close>: the
  value returned, the new contents and the new \<^verbatim>\<open>i\<close>.\<close>

definition XorShift7_step :: "int list \<Rightarrow> int \<Rightarrow> int \<times> int list \<times> int" where
  "XorShift7_step X i =
     (let t = or0 (js_get X i);
          t1 = js_xor t (js_ushr t 7);
          v = js_xor t1 (js_shl t1 24);
          t2 = or0 (js_get X (js_and (i + 1) 7));
          v1 = js_xor v (js_xor t2 (js_ushr t2 10));
          t3 = or0 (js_get X (js_and (i + 3) 7));
          v2 = js_xor v1 (js_xor t3 (js_ushr t3 3));
          t4 = or0 (js_get X (js_and (i + 4) 7));
          v3 = js_xor v2 (js_xor t4 (js_shl t4 7));
          t5 = or0 (js_get X (js_and (i + 7) 7));
          t6 = js_xor t5 (js_shl t5 13);
          v4 = js_xor v3 (js_xor t6 (js_shl t6 9))
      in (v4, js_set X i v4, js_and (i + 1) 7))"

definition XorShift7_internalNextInt32 ::
  "int list \<Rightarrow> XorShift7State \<Rightarrow> int \<times> int list \<times> XorShift7State" where
  "XorShift7_internalNextInt32 X state =
     (case XorShift7_step X (xs7_i state) of (v, X', i') \<Rightarrow> (v, X', state\<lparr>xs7_i := i'\<rparr>))"

text \<open>\<^verbatim>\<open>buildStateFromSeed\<close>: the contents of \<^verbatim>\<open>X\<close> and the value of \<^verbatim>\<open>i\<close> it ends with.  In the
  string loop \<^verbatim>\<open>charCodeAt(j) + X[(j + 1) & 7]\<close> is \<^verbatim>\<open>NaN\<close> while that element is still
  \<^verbatim>\<open>undefined\<close>, and \<^verbatim>\<open>NaN << 13\<close> is 0.\<close>

definition XorShift7_buildStateFromSeed :: "(rat \<Rightarrow> js_string) \<Rightarrow> seed \<Rightarrow> int list \<times> int" where
  "XorShift7_buildStateFromSeed numToString seed =
     (let X0 = (if is_int32_seed seed then js_set [] 0 (js_trunc (seed_number seed))
                else
                  let strseed = seed_to_string numToString seed in
                  fold (\<lambda>j X.
                          js_set X (js_and (int j) 7)
                            (js_xor (js_shl (or0 (js_get X (js_and (int j) 7))) 15)
                               (case js_get X (js_and (int j + 1) 7) of
                                  None \<Rightarrow> 0
                                | Some x \<Rightarrow> js_shl (uint (strseed ! j) + x) 13)))
                       [0 ..< length strseed] []);
          X1 = X0 @ replicate (8 - length X0) 0;
          X2 = (if list_all (\<lambda>x. x = 0) (take 8 X1) then js_set X1 7 (- 1) else X1)
      in fold (\<lambda>j (X, i). case XorShift7_step X i of (v, X', i') \<Rightarrow> (X', i'))
              [0 ..< 256] (X2, 0))"

definition XorShift7 :: "(rat \<Rightarrow> js_string) \<Rightarrow> XorShift7State seeded_class" where
  "XorShift7 numToString =
     \<lparr>cloneState = (\<lambda>state h.
        case new_arr (arrs h ! xs7_X (objs h ! state)) h of
          (X', h1) \<Rightarrow> new_obj \<lparr>xs7_X = X', xs7_i = xs7_i (objs h ! state)\<rparr> h1),
      buildStateFromSeed = (\<lambda>seed h.
        case XorShift7_buildStateFromSeed numToString seed of
          (X, i) \<Rightarrow> (case new_arr X h of (X', h1) \<Rightarrow> new_obj \<lparr>xs7_X = X', xs7_i = i\<rparr> h1)),
      nextFract32 = (\<lambda>minInclusive maxExclusive this.
        unbiasedRandomFract32 minInclusive maxExclusive
          (converted bitwiseInt32ToFract32
             (on_array_state xs7_X XorShift7_internalNextInt32 this))),
      nextInt32 = (\<lambda>minInclusive maxExclusive this.
        unbiasedRandomInt32 minInclusive maxExclusive
          (on_array_state xs7_X XorShift7_internalNextInt32 this)),
      nextUint32 = (\<lambda>minInclusive maxExclusive this.
        unbiasedRandomUint32 minInclusive maxExclusive
          (converted bitwiseInt32ToUint32
             (on_array_state xs7_X XorShift7_internalNextInt32 this)))\<rparr>"

subsection \<open>Xor4096\<close>

record Xor4096State =
  x4096_X :: addr
  x4096_i :: int
  x4096_w :: int

definition Xor4096_step :: "int list \<Rightarrow> int \<Rightarrow> int \<Rightarrow> int \<times> int list \<times> int \<times> int" where
  "Xor4096_step X i w =
     (let w1 = js_or (w + 1640531527) 0;
          v = or0 (js_get X (js_and (i + 34) 127));
          i1 = js_and (i + 1) 127;
          t = or0 (js_get X i1);
          v1 = js_xor v (js_shl v 13);
          t1 = js_xor t (js_shl t 17);
          v2 = js_xor v1 (js_ushr v1 15);
          t2 = js_xor t1 (js_ushr t1 12);
          v3 = js_xor v2 t2
      in (js_or (v3 + js_xor w1 (js_ushr w1 16)) 0, js_set X i1 v3, i1, w1))"

definition Xor4096_internalNextInt32 ::
  "int list \<Rightarrow> Xor4096State \<Rightarrow> int \<times> int list \<times> Xor4096State" where
  "Xor4096_internalNextInt32 X state =
     (case Xor4096_step X (x4096_i state) (x4096_w state) of
        (r, X', i', w') \<Rightarrow> (r, X', state\<lparr>x4096_i := i', x4096_w := w'\<rparr>))"

text \<open>The first loop of \<^verbatim>\<open>buildStateFromSeed\<close>, \<^verbatim>\<open>for (i = 0, j = -32; j < limit; ++j)\<close>, on
  the variables \<^verbatim>\<open>v\<close>, \<^verbatim>\<open>w\<close>, \<^verbatim>\<open>X\<close> and \<^verbatim>\<open>i\<close>; the loop runs \<open>limit + 32\<close> times and \<open>k\<close> is
  \<open>j + 32\<close>.\<close>

definition Xor4096_init_pass ::
  "js_string \<Rightarrow> nat \<Rightarrow> int \<times> int \<times> int list \<times> int \<Rightarrow> int \<times> int \<times> int list \<times> int" where
  "Xor4096_init_pass strseed k s =
     (case s of (v, w, X, i) \<Rightarrow>
        let j = int k - 32;
            v1 = (if strseed \<noteq> [] then js_xor v (uint (strseed ! (k mod length strseed))) else v);
            w1 = (if j = 0 then v1 else w);
            v2 = js_xor v1 (js_shl v1 10);
            v3 = js_xor v2 (js_ushr v2 15);
            v4 = js_xor v3 (js_shl v3 4);
            v5 = js_xor v4 (js_ushr v4 13)
        in if j \<ge> 0
           then let w2 = js_or (w1 + 1640531527) 0;
                    t = js_xor (or0 (js_get X (js_and j 127))) (v5 + w2)
                in (v5, w2, js_set X (js_and j 127) t, if 0 = t then i + 1 else 0)
           else (v5, w1, X, i))"

text \<open>The second loop, 512 rounds of the generator without its Weyl word.\<close>

definition Xor4096_warm_up :: "int list \<times> int \<Rightarrow> int list \<times> int" where
  "Xor4096_warm_up s =
     (case s of (X, i) \<Rightarrow>
        let v = or0 (js_get X (js_and (i + 34) 127));
            i1 = js_and (i + 1) 127;
            t = or0 (js_get X i1);
            v1 = js_xor v (js_shl v 13);
            t1 = js_xor t (js_shl t 17);
            v2 = js_xor v1 (js_ushr v1 15);
            t2 = js_xor t1 (js_ushr t1 12)
        in (js_set X i1 (js_xor v2 t2), i1))"

definition Xor4096_buildStateFromSeed ::
  "(rat \<Rightarrow> js_string) \<Rightarrow> seed \<Rightarrow> int list \<times> int \<times> int" where
  "Xor4096_buildStateFromSeed numToString seed =
     (let strseed = (if is_int32_seed seed then [] else seed_to_string numToString seed @ [0]);
          v = (if is_int32_seed seed then js_trunc (seed_number seed) else 0);
          limit = (if is_int32_seed seed then 128 else max 128 (length strseed))
      in case fold (Xor4096_init_pass strseed) [0 ..< limit + 32] (v, 0, [], 0) of
           (v', w, X, i) \<Rightarrow>
             let X1 = (if i \<ge> 128
                       then js_set X (js_and (if strseed \<noteq> [] then int (length strseed) else 0) 127)
                              (- 1)
                       else X)
             in case fold (\<lambda>j. Xor4096_warm_up) [0 ..< 4 * 128] (X1, 127) of
                  (X2, i2) \<Rightarrow> (X2, i2, w))"

definition Xor4096 :: "(rat \<Rightarrow> js_string) \<Rightarrow> Xor4096State seeded_class" where
  "Xor4096 numToString =
     \<lparr>cloneState = (\<lambda>state h.
        case new_arr (arrs h ! x4096_X (objs h ! state)) h of
          (X', h1) \<Rightarrow> new_obj \<lparr>x4096_X = X', x4096_i = x4096_i (objs h ! state),
                                 x4096_w = x4096_w (objs h ! state)\<rparr> h1),
      buildStateFromSeed = (\<lambda>seed h.
        case Xor4096_buildStateFromSeed numToString seed of
          (X, i, w) \<Rightarrow>
            (case new_arr X h of
               (X', h1) \<Rightarrow> new_obj \<lparr>x4096_X = X', x4096_i = i, x4096_w = w\<rparr> h1)),
      nextFract32 = (\<lambda>minInclusive maxExclusive this.
        unbiasedRandomFract32 minInclusive maxExclusive
          (converted bitwiseInt32ToFract32
             (on_array_state x4096_X Xor4096_internalNextInt32 this))),
      nextInt32 = (\<lambda>minInclusive maxExclusive this.
        unbiasedRandomInt32 minInclusive maxExclusive
          (on_array_state x4096_X Xor4096_internalNextInt32 this)),
      nextUint32 = (\<lambda>minInclusive maxExclusive this.
        unbiasedRandomUint32 minInclusive maxExclusive
          (converted bitwiseInt32ToUint32
             (on_array_state x4096_X Xor4096_internalNextInt32 this)))\<rparr>"

section \<open>Lifecycle properties, stated for a class\<close>

text \<open>
  Two sources correspond under a relation between their states when, from related states,
  they return the same value and leave related states.  Two outcomes are related when both
  do not return, or both return or throw the same thing and leave related states.
\<close>

definition corresponds :: "('s \<Rightarrow> 't \<Rightarrow> bool) \<Rightarrow> ('a, 's) source \<Rightarrow> ('a, 't) source \<Rightarrow> bool" where
  "corresponds R f g \<longleftrightarrow> (\<forall>s t. R s t \<longrightarrow> fst (f s) = fst (g t) \<and> R (snd (f s)) (snd (g t)))"

definition outcome_rel ::
  "('s \<Rightarrow> 't \<Rightarrow> bool) \<Rightarrow> ('r \<times> 's) option \<Rightarrow> ('r \<times> 't) option \<Rightarrow> bool" where
  "outcome_rel R x y =
     (case x of
        None \<Rightarrow> y = None
      | Some (r, s) \<Rightarrow> (case y of None \<Rightarrow> False | Some (r', t) \<Rightarrow> r = r' \<and> R s t))"

text \<open>
  What the lifecycle properties need of a class, in terms of a \<open>view\<close> (the value of the
  state a generator's address leads to: its fields and the contents of its array, not the
  array's address), of \<open>live\<close> (the address leads to allocated objects) and of \<open>sep\<close> (two
  live generators share no object):
  the outcome of a call is a function of the view and leaves a view that is one;
  a call leaves the view of a separate generator alone;
  \<^verbatim>\<open>cloneState\<close> and \<^verbatim>\<open>buildStateFromSeed\<close> make a generator separate from every live one, with
  the view cloned, respectively a view that is a function of the seed.
\<close>

definition class_ok ::
  "'o seeded_class \<Rightarrow> (addr \<Rightarrow> 'o heap \<Rightarrow> 'v) \<Rightarrow> (addr \<Rightarrow> 'o heap \<Rightarrow> bool) \<Rightarrow>
   (addr \<Rightarrow> addr \<Rightarrow> 'o heap \<Rightarrow> bool) \<Rightarrow> bool" where
  "class_ok C view live sep \<longleftrightarrow>
     (\<forall>a b h. sep a b h \<longrightarrow> sep b a h \<and> live a h \<and> live b h)
   \<and> (\<forall>c a b h k. live a h \<and> live b k \<and> view a h = view b k \<longrightarrow>
          outcome_rel (\<lambda>h' k'. live a h' \<and> live b k' \<and> view a h' = view b k')
            (invoke C c a h) (invoke C c b k))
   \<and> (\<forall>c a b h r h'. sep a b h \<and> invoke C c a h = Some (r, h') \<longrightarrow>
          sep a b h' \<and> view b h' = view b h)
   \<and> (\<forall>a h b h'. live a h \<and> cloneState C a h = (b, h') \<longrightarrow>
          live b h' \<and> view b h' = view a h \<and>
          (\<forall>g. live g h \<longrightarrow> sep g b h' \<and> view g h' = view g h))
   \<and> (\<forall>sd h a h'. buildStateFromSeed C sd h = (a, h') \<longrightarrow>
          live a h' \<and> (\<forall>g. live g h \<longrightarrow> sep g a h' \<and> view g h' = view g h))
   \<and> (\<forall>sd h k a h' b k'. buildStateFromSeed C sd h = (a, h') \<and>
          buildStateFromSeed C sd k = (b, k') \<longrightarrow> view a h' = view b k')"

text \<open>
  The claim of determinism, for a class: two generators constructed one after the other
  from options with the same seed (and no state; whatever their seed functions, whatever
  the entropy sources and the worlds) leave the worlds as they were, and on every list of
  calls made in lockstep the results come in equal pairs, which are the results the first
  generator gives when the calls are made on it alone; a generator constructed from the
  same seed in any other heap gives these results too.
\<close>

definition equal_seeds_equal_outputs ::
  "'o seeded_class \<Rightarrow> ('w \<Rightarrow> seed \<times> 'w) \<Rightarrow> ('w \<Rightarrow> seed \<times> 'w) \<Rightarrow> bool" where
  "equal_seeds_equal_outputs C randomSeed1 randomSeed2 \<longleftrightarrow>
     (\<forall>sd options1 options2 w1 w2 h a b w1' w2' h1 h2 cs.
        opt_seed options1 = Some sd \<and> opt_state options1 = None \<and>
        opt_seed options2 = Some sd \<and> opt_state options2 = None \<and>
        new_generator C randomSeed1 options1 w1 h = (a, w1', h1) \<and>
        new_generator C randomSeed2 options2 w2 h1 = (b, w2', h2) \<longrightarrow>
          w1' = w1 \<and> w2' = w2 \<and>
          map_option fst (lockstep C a b cs h2)
            = map_option (\<lambda>(rs, h'). map (\<lambda>r. (r, r)) rs) (run C a cs h2) \<and>
          (\<forall>k g w3 w3' k1. new_generator C randomSeed2 options2 w3 k = (g, w3', k1) \<longrightarrow>
             map_option fst (run C g cs k1) = map_option fst (run C a cs h2)))"

text \<open>
  The claim of resumption, for a class: a generator is constructed from a seed and
  advanced by any calls; its state is exported with \<^verbatim>\<open>getState\<close>; a second generator is
  constructed from options that carry the export.  Then the constructor did no more than
  clone the export (the seed and the seed function of the options, the entropy source and
  the world play no part), and on every list of calls made in lockstep the results come in
  equal pairs, which are the results the first generator gives from its state at the export
  when the calls are made on it alone.
\<close>

definition restored_state_resumes ::
  "'o seeded_class \<Rightarrow> ('w \<Rightarrow> seed \<times> 'w) \<Rightarrow> ('w \<Rightarrow> seed \<times> 'w) \<Rightarrow> bool" where
  "restored_state_resumes C randomSeed1 randomSeed2 \<longleftrightarrow>
     (\<forall>sd options1 options2 w1 w2 h0 a w1' h1 pre outs h e h' b w2' h2 cs.
        opt_seed options1 = Some sd \<and> opt_state options1 = None \<and>
        new_generator C randomSeed1 options1 w1 h0 = (a, w1', h1) \<and>
        run C a pre h1 = Some (outs, h) \<and>
        getState C a h = (e, h') \<and>
        opt_state options2 = Some e \<and>
        new_generator C randomSeed2 options2 w2 h' = (b, w2', h2) \<longrightarrow>
          (b, w2', h2) = (fst (cloneState C e h'), w2, snd (cloneState C e h')) \<and>
          map_option fst (lockstep C a b cs h2)
            = map_option (\<lambda>(rs, h'). map (\<lambda>r. (r, r)) rs) (run C a cs h))"

section \<open>Views of a generator\<close>

text \<open>The view of a generator with a flat state is the state object; it is live when the
  object is allocated; two generators are separate when their objects are two.\<close>

definition flat_view :: "addr \<Rightarrow> 'o heap \<Rightarrow> 'o" where
  "flat_view a h = objs h ! a"

definition flat_live :: "addr \<Rightarrow> 'o heap \<Rightarrow> bool" where
  "flat_live a h \<longleftrightarrow> a < length (objs h)"

definition flat_sep :: "addr \<Rightarrow> addr \<Rightarrow> 'o heap \<Rightarrow> bool" where
  "flat_sep a b h \<longleftrightarrow> a \<noteq> b \<and> a < length (objs h) \<and> b < length (objs h)"

text \<open>With an array \<^verbatim>\<open>X\<close> in the state, the view is the contents of the array and the
  rest of the state (\<open>flat\<close>); the generator is live when the object and the array are
  allocated; two generators are separate when their objects are two and their arrays are
  two.\<close>

definition array_view :: "('o \<Rightarrow> addr) \<Rightarrow> ('o \<Rightarrow> 'f) \<Rightarrow> addr \<Rightarrow> 'o heap \<Rightarrow> int list \<times> 'f" where
  "array_view X flat a h = (arrs h ! X (objs h ! a), flat (objs h ! a))"

definition array_live :: "('o \<Rightarrow> addr) \<Rightarrow> addr \<Rightarrow> 'o heap \<Rightarrow> bool" where
  "array_live X a h \<longleftrightarrow> a < length (objs h) \<and> X (objs h ! a) < length (arrs h)"

definition array_sep :: "('o \<Rightarrow> addr) \<Rightarrow> addr \<Rightarrow> addr \<Rightarrow> 'o heap \<Rightarrow> bool" where
  "array_sep X a b h \<longleftrightarrow>
     array_live X a h \<and> array_live X b h \<and> a \<noteq> b \<and> X (objs h ! a) \<noteq> X (objs h ! b)"

section \<open>Properties of the sampler\<close>

lemma js_or0_id: "- (2 ^ 31) \<le> m \<Longrightarrow> m < 2 ^ 31 \<Longrightarrow> js_or m 0 = m"
  by (simp add: js_or_def signed_of_int signed_take_bit_int_eq_self)

lemma js_ushr0_id: "0 \<le> m \<Longrightarrow> m < 2 ^ 32 \<Longrightarrow> js_ushr m 0 = m"
  by (simp add: js_ushr_eq)

lemma mask_loop_pos:
  "0 < temp \<Longrightarrow> mask_loop msk temp = mask_loop (js_or (js_shl msk 1) 1) (js_ushr temp 1)"
  by (subst mask_loop.simps) simp

lemma mask_loop_nonpos: "\<not> 0 < temp \<Longrightarrow> mask_loop msk temp = msk"
  by (subst mask_loop.simps) simp

lemma word_mask_step: "push_bit 1 (mask k :: 32 word) OR 1 = mask (Suc k)"
  by (simp add: mask_Suc_double ac_simps)

text \<open>The loop invariant: the low 32 bits of \<^verbatim>\<open>mask\<close> are \<open>k\<close> ones, and every remaining
  bit of \<^verbatim>\<open>temp\<close> adds one.\<close>

lemma mask_loop_mask:
  "0 \<le> temp \<Longrightarrow> temp < 2 ^ 32 \<Longrightarrow> (word_of_int msk :: 32 word) = mask k \<Longrightarrow>
   (word_of_int (mask_loop msk temp) :: 32 word) = mask (k + nat (bitlen temp))"
proof (induction msk temp arbitrary: k rule: mask_loop.induct)
  case (1 msk temp)
  show ?case
  proof (cases "temp > 0")
    case False
    with 1(2) have "temp = 0" by simp
    with 1(4) show ?thesis by (simp add: mask_loop_nonpos)
  next
    case True
    have eq: "js_ushr temp 1 = temp div 2" using 1(2,3) by (simp add: js_ushr_eq)
    have a: "0 \<le> js_ushr temp 1" "js_ushr temp 1 < 2 ^ 32" unfolding eq using 1(2,3) by simp_all
    have "(word_of_int (js_or (js_shl msk 1) 1) :: 32 word) = push_bit 1 (word_of_int msk) OR 1"
      by (simp add: js_or_def js_shl_def)
    also have "\<dots> = mask (Suc k)"
      unfolding 1(4) by (rule word_mask_step)
    finally have b: "(word_of_int (js_or (js_shl msk 1) 1) :: 32 word) = mask (Suc k)" .
    have bl: "bitlen temp = bitlen (temp div 2) + 1" using True by (subst compute_bitlen) simp
    have nbl: "nat (bitlen temp) = Suc (nat (bitlen (temp div 2)))"
      using bitlen_nonneg[of "temp div 2"] by (simp add: bl nat_add_distrib)
    have step: "mask_loop msk temp = mask_loop (js_or (js_shl msk 1) 1) (js_ushr temp 1)"
      by (rule mask_loop_pos[OF True])
    from "1.IH"[OF True a b]
    have "(word_of_int (mask_loop msk temp) :: 32 word) = mask (Suc k + nat (bitlen (temp div 2)))"
      unfolding step eq .
    then show ?thesis using nbl by simp
  qed
qed

lemma compute_mask_eq:
  assumes "1 \<le> rng" "rng \<le> 2 ^ 32"
  shows "compute_mask rng = 2 ^ nat (bitlen (rng - 1)) - 1"
proof -
  have le: "bitlen (rng - 1) \<le> 32" using assms by (simp add: bitlen_le_iff_power)
  have "(word_of_int (mask_loop 0 (rng - 1)) :: 32 word) = mask (0 + nat (bitlen (rng - 1)))"
    using assms by (intro mask_loop_mask) simp_all
  then have "compute_mask rng = uint (mask (nat (bitlen (rng - 1))) :: 32 word)"
    by (simp add: compute_mask_def js_ushr_def)
  also have "\<dots> = mask (nat (bitlen (rng - 1)))"
  proof -
    have "nat (bitlen (rng - 1)) \<le> 32" using le by simp
    then show ?thesis by (simp add: uint_mask_eq min_absorb2)
  qed
  finally show ?thesis by (simp add: mask_eq_exp_minus_1)
qed

lemma compute_mask_covers:
  assumes "1 \<le> rng" "rng \<le> 2 ^ 32"
  shows "rng - 1 \<le> compute_mask rng"
proof (cases "rng = 1")
  case True
  then show ?thesis using compute_mask_eq[OF assms] by simp
next
  case False
  then have "0 < rng - 1" using assms by simp
  from bitlen_bounds[OF this] have "rng - 1 < 2 ^ nat (bitlen (rng - 1))" by simp
  then show ?thesis using compute_mask_eq[OF assms] by simp
qed

lemma compute_mask_least:
  assumes "1 \<le> rng" "rng \<le> 2 ^ 32" "rng - 1 \<le> 2 ^ m - 1"
  shows "compute_mask rng \<le> 2 ^ m - 1"
proof -
  have "rng - 1 < 2 ^ nat (int m)" using assms(3) by simp
  then have "bitlen (rng - 1) \<le> int m" by (simp add: bitlen_le_iff_power)
  then have "nat (bitlen (rng - 1)) \<le> m" by simp
  then have "(2::int) ^ nat (bitlen (rng - 1)) \<le> 2 ^ m" by (simp add: power_increasing)
  then show ?thesis unfolding compute_mask_eq[OF assms(1,2)] by linarith
qed

lemma masked_nonneg: "0 \<le> masked msk v"
  by (simp add: masked_def js_ushr_nonneg)

lemma sample_loop_accept:
  "masked msk (fst (f s)) < rng \<Longrightarrow>
   sample_loop rng msk f s = Some (masked msk (fst (f s)), snd (f s))"
  by (subst sample_loop.simps) (simp add: case_prod_beta Let_def)

lemma sample_loop_reject:
  "rng \<le> masked msk (fst (f s)) \<Longrightarrow> sample_loop rng msk f s = sample_loop rng msk f (snd (f s))"
  by (subst sample_loop.simps) (simp add: case_prod_beta Let_def)

lemma nth_draw_Suc: "nth_draw f s (Suc j) = nth_draw f (snd (f s)) j"
  by (simp add: nth_draw_def)

text \<open>The loop returns at the first draw whose masked form is below the range.\<close>

lemma sample_loop_first:
  "(\<forall>j<k. rng \<le> masked msk (nth_draw f s j)) \<Longrightarrow> masked msk (nth_draw f s k) < rng \<Longrightarrow>
   sample_loop rng msk f s = Some (masked msk (nth_draw f s k), draws f s (Suc k))"
proof (induction k arbitrary: s)
  case 0
  then show ?case by (simp add: nth_draw_def sample_loop_accept)
next
  case (Suc k)
  have rej: "rng \<le> masked msk (fst (f s))"
    using Suc.prems(1)[rule_format, of 0] by (simp add: nth_draw_def)
  have "\<forall>j<k. rng \<le> masked msk (nth_draw f (snd (f s)) j)"
    using Suc.prems(1) nth_draw_Suc by (metis Suc_less_eq)
  moreover have "masked msk (nth_draw f (snd (f s)) k) < rng"
    using Suc.prems(2) by (simp add: nth_draw_Suc)
  ultimately have "sample_loop rng msk f (snd (f s)) =
      Some (masked msk (nth_draw f (snd (f s)) k), draws f (snd (f s)) (Suc k))"
    by (rule Suc.IH)
  then show ?case using rej by (simp add: sample_loop_reject nth_draw_Suc)
qed

text \<open>Conversely, whatever the loop returns is such a first acceptable draw.\<close>

lemma sample_loop_Some:
  assumes "sample_loop rng msk f s = Some r"
  shows "\<exists>k. fst r = masked msk (nth_draw f s k) \<and> snd r = draws f s (Suc k) \<and> fst r < rng \<and>
       (\<forall>j<k. rng \<le> masked msk (nth_draw f s j))"
  using assms
proof (induct rule: sample_loop.raw_induct[rotated 1, consumes 1, case_names step])
  case (step loop rng msk f s r)
  show ?case
  proof (cases "rng \<le> masked msk (fst (f s))")
    case True
    with step(2) have "loop rng msk f (snd (f s)) = Some r"
      by (simp add: case_prod_beta Let_def)
    from step(1)[OF this] obtain k where k: "fst r = masked msk (nth_draw f (snd (f s)) k)"
      "snd r = draws f (snd (f s)) (Suc k)" "fst r < rng"
      "\<forall>j<k. rng \<le> masked msk (nth_draw f (snd (f s)) j)" by blast
    have "\<forall>j<Suc k. rng \<le> masked msk (nth_draw f s j)"
    proof (intro allI impI)
      fix j assume "j < Suc k"
      then show "rng \<le> masked msk (nth_draw f s j)"
        using True k(4) nth_draw_Suc[of f s] by (cases j) (simp_all add: nth_draw_def)
    qed
    with k(1,2,3) show ?thesis
      by (intro exI[of _ "Suc k"]) (simp add: nth_draw_Suc)
  next
    case False
    with step(2) have "r = (masked msk (fst (f s)), snd (f s))"
      by (simp add: case_prod_beta Let_def)
    with False show ?thesis
      by (intro exI[of _ 0]) (simp add: nth_draw_def)
  qed
qed

lemma sample_loop_None:
  assumes allrej: "\<forall>k. rng \<le> masked msk (nth_draw f s k)"
  shows "sample_loop rng msk f s = None"
proof (rule ccontr)
  assume "sample_loop rng msk f s \<noteq> None"
  then obtain r where "sample_loop rng msk f s = Some r" by auto
  from sample_loop_Some[OF this] obtain k
    where "fst r = masked msk (nth_draw f s k)" "fst r < rng" by blast
  with allrej show False by (metis not_less)
qed

lemma sampler_one: "unbiasedRandomUint32FromRange 1 f s = Some (0, s)"
  by (simp add: unbiasedRandomUint32FromRange_def)

text \<open>
  \<^bold>\<open>C1.\<close>  For a range in \<open>(1, 2\<^sup>3\<^sup>2]\<close> and any raw source, the sampler returns exactly at the
  first draw whose masked form \<^verbatim>\<open>(value & mask) >>> 0\<close> is below the range: every value it
  returns lies in \<open>[0, range)\<close>, is the masked form of some draw \<open>k\<close>, leaves the source after
  \<open>k + 1\<close> invocations, and every earlier draw had a masked form of at least the range;
  conversely the first such draw is returned, and a source with no such draw makes the
  loop run forever.  With range 127 the mask is 127; on the raw sequence 254, 13 the sampler
  returns 126 after one draw, and on 255, 13 (255 masks to 127, which is rejected) it
  returns 13 after two draws.
\<close>

theorem sampler_returns_first_draw_below_range:
  assumes "1 < rng" and "rng \<le> 2 ^ 32"
  shows "(\<forall>v s'. unbiasedRandomUint32FromRange rng f s = Some (v, s') \<longrightarrow>
            0 \<le> v \<and> v < rng \<and>
            (\<exists>k. v = masked (compute_mask rng) (nth_draw f s k) \<and> s' = draws f s (Suc k) \<and>
                 (\<forall>j<k. rng \<le> masked (compute_mask rng) (nth_draw f s j))))
       \<and> (\<forall>k. (\<forall>j<k. rng \<le> masked (compute_mask rng) (nth_draw f s j)) \<and>
               masked (compute_mask rng) (nth_draw f s k) < rng \<longrightarrow>
               unbiasedRandomUint32FromRange rng f s =
                 Some (masked (compute_mask rng) (nth_draw f s k), draws f s (Suc k)))
       \<and> ((\<forall>k. rng \<le> masked (compute_mask rng) (nth_draw f s k)) \<longrightarrow>
               unbiasedRandomUint32FromRange rng f s = None)
       \<and> compute_mask 127 = 127
       \<and> unbiasedRandomUint32FromRange 127 (stub [254, 13] 1) (0::nat) = Some (126, 1)
       \<and> masked 127 255 = 127
       \<and> unbiasedRandomUint32FromRange 127 (stub [255, 13] 1) (0::nat) = Some (13, 2)"
proof -
  have loop: "unbiasedRandomUint32FromRange rng f s = sample_loop rng (compute_mask rng) f s"
    using assms(1) by (simp add: unbiasedRandomUint32FromRange_def)
  have a: "\<forall>v s'. unbiasedRandomUint32FromRange rng f s = Some (v, s') \<longrightarrow>
            0 \<le> v \<and> v < rng \<and>
            (\<exists>k. v = masked (compute_mask rng) (nth_draw f s k) \<and> s' = draws f s (Suc k) \<and>
                 (\<forall>j<k. rng \<le> masked (compute_mask rng) (nth_draw f s j)))"
  proof (intro allI impI)
    fix v s' assume "unbiasedRandomUint32FromRange rng f s = Some (v, s')"
    then have "sample_loop rng (compute_mask rng) f s = Some (v, s')" by (simp add: loop)
    from sample_loop_Some[OF this] obtain k where
      k: "v = masked (compute_mask rng) (nth_draw f s k)" "s' = draws f s (Suc k)" "v < rng"
         "\<forall>j<k. rng \<le> masked (compute_mask rng) (nth_draw f s j)" by auto
    have nn: "0 \<le> v" unfolding k(1) by (rule masked_nonneg)
    have ex: "\<exists>k. v = masked (compute_mask rng) (nth_draw f s k) \<and> s' = draws f s (Suc k) \<and>
                 (\<forall>j<k. rng \<le> masked (compute_mask rng) (nth_draw f s j))"
      by (rule exI[of _ k]) (rule conjI[OF k(1) conjI[OF k(2) k(4)]])
    show "0 \<le> v \<and> v < rng \<and>
            (\<exists>k. v = masked (compute_mask rng) (nth_draw f s k) \<and> s' = draws f s (Suc k) \<and>
                 (\<forall>j<k. rng \<le> masked (compute_mask rng) (nth_draw f s j)))"
      by (rule conjI[OF nn conjI[OF k(3) ex]])
  qed
  have b: "\<forall>k. (\<forall>j<k. rng \<le> masked (compute_mask rng) (nth_draw f s j)) \<and>
               masked (compute_mask rng) (nth_draw f s k) < rng \<longrightarrow>
               unbiasedRandomUint32FromRange rng f s =
                 Some (masked (compute_mask rng) (nth_draw f s k), draws f s (Suc k))"
    unfolding loop
  proof (intro allI impI)
    fix k
    assume h: "(\<forall>j<k. rng \<le> masked (compute_mask rng) (nth_draw f s j)) \<and>
               masked (compute_mask rng) (nth_draw f s k) < rng"
    show "sample_loop rng (compute_mask rng) f s =
            Some (masked (compute_mask rng) (nth_draw f s k), draws f s (Suc k))"
      by (rule sample_loop_first[OF conjunct1[OF h] conjunct2[OF h]])
  qed
  have c: "(\<forall>k. rng \<le> masked (compute_mask rng) (nth_draw f s k)) \<longrightarrow>
               unbiasedRandomUint32FromRange rng f s = None"
    unfolding loop by (intro impI sample_loop_None)
  have d: "compute_mask 127 = 127" by code_simp
  have e: "unbiasedRandomUint32FromRange 127 (stub [254, 13] 1) (0::nat) = Some (126, 1)"
    by code_simp
  have g: "masked 127 255 = 127" by code_simp
  have h: "unbiasedRandomUint32FromRange 127 (stub [255, 13] 1) (0::nat) = Some (13, 2)"
    by code_simp
  show ?thesis
    by (rule conjI[OF a conjI[OF b conjI[OF c conjI[OF d conjI[OF e conjI[OF g h]]]]]])
qed


theorem sampler_returns_first_draw_below_range_witness:
  "(1::int) < 24576 \<and> (24576::int) \<le> 2 ^ 32
   \<and> compute_mask 24576 = 32767
   \<and> masked 32767 30000 = 30000
   \<and> unbiasedRandomUint32FromRange 24576 (stub [30000, 5::int] 1) (0::nat) = Some (5, 2)"
proof -
  have h1: "(1::int) < 24576" by simp
  have h2: "(24576::int) \<le> 2 ^ 32" by simp
  have m: "compute_mask 24576 = 32767" by code_simp
  have m0: "masked 32767 30000 = 30000" by code_simp
  have d0: "nth_draw (stub [30000, 5::int] 1) (0::nat) 0 = 30000" by code_simp
  have d1: "masked 32767 (nth_draw (stub [30000, 5::int] 1) (0::nat) 1) = 5" by code_simp
  have st: "draws (stub [30000, 5::int] 1) (0::nat) (Suc 1) = 2" by code_simp
  have rej: "\<forall>j<1. (24576::int) \<le> masked (compute_mask 24576) (nth_draw (stub [30000, 5::int] 1) (0::nat) j)"
    unfolding m using d0 m0 by simp
  have acc: "masked (compute_mask 24576) (nth_draw (stub [30000, 5::int] 1) (0::nat) 1) < 24576"
    unfolding m d1 by simp
  note first = sampler_returns_first_draw_below_range[OF h1 h2, of "stub [30000, 5::int] 1" "0::nat",
      THEN conjunct2, THEN conjunct1, rule_format, of 1, OF conjI[OF rej acc]]
  have r: "unbiasedRandomUint32FromRange 24576 (stub [30000, 5] 1) (0::nat) = Some (5, 2)"
    using first unfolding m d1 st .
  show ?thesis
    by (rule conjI[OF h1 conjI[OF h2 conjI[OF m conjI[OF m0 r]]]])
qed

text \<open>
  \<^bold>\<open>C2.\<close>  For a range in \<open>(1, 2\<^sup>3\<^sup>2]\<close> the mask computed by the shifting loop has the form
  \<open>2\<^sup>n - 1\<close>, is at least \<open>range - 1\<close>, and is the smallest such value; at the boundary
  \<open>range = 2\<^sup>3\<^sup>2\<close> it is \<open>2\<^sup>3\<^sup>2 - 1\<close>.
\<close>

theorem mask_is_smallest_cover_of_range:
  assumes "1 < rng" and "rng \<le> 2 ^ 32"
  shows "(\<exists>n. compute_mask rng = 2 ^ n - 1)
       \<and> rng - 1 \<le> compute_mask rng
       \<and> (\<forall>m. rng - 1 \<le> 2 ^ m - 1 \<longrightarrow> compute_mask rng \<le> 2 ^ m - 1)
       \<and> compute_mask (2 ^ 32) = 2 ^ 32 - 1"
proof -
  have r: "1 \<le> rng" using assms(1) by simp
  have a: "\<exists>n. compute_mask rng = 2 ^ n - 1"
    using compute_mask_eq[OF r assms(2)] by blast
  have b: "rng - 1 \<le> compute_mask rng" by (rule compute_mask_covers[OF r assms(2)])
  have c: "\<forall>m. rng - 1 \<le> 2 ^ m - 1 \<longrightarrow> compute_mask rng \<le> 2 ^ m - 1"
    using compute_mask_least[OF r assms(2)] by blast
  have d: "compute_mask (2 ^ 32) = 2 ^ 32 - 1" by code_simp
  show ?thesis
    by (rule conjI[OF a conjI[OF b conjI[OF c d]]])
qed

theorem mask_is_smallest_cover_of_range_witness:
  "(1::int) < 24576 \<and> (24576::int) \<le> 2 ^ 32
   \<and> 24575 \<le> compute_mask 24576 \<and> compute_mask 24576 \<le> 32767"
proof -
  have h1: "(1::int) < 24576" by simp
  have h2: "(24576::int) \<le> 2 ^ 32" by simp
  note T = mask_is_smallest_cover_of_range[OF h1 h2]
  have lo: "24575 \<le> compute_mask 24576"
    using T[THEN conjunct2, THEN conjunct1] by simp
  have up: "compute_mask 24576 \<le> 32767"
    using T[THEN conjunct2, THEN conjunct2, THEN conjunct1, rule_format, of 15] by simp
  show ?thesis
    by (rule conjI[OF h1 conjI[OF h2 conjI[OF lo up]]])
qed

section \<open>Properties of the ranged wrappers\<close>

lemma uint32_unit_range:
  "0 \<le> m \<Longrightarrow> m + 1 \<le> 2 ^ 32 \<Longrightarrow>
   unbiasedRandomUint32 (Some (of_int m)) (Some (of_int m + 1)) f s = Some (Inr m, s)"
  by (simp add: unbiasedRandomUint32_def assertSafeRangeUint32_def MIN_SAFE_UINT32_INCLUSIVE_def
      MAX_SAFE_UINT32_EXCLUSIVE_def nullish_def sampler_one Let_def flip: of_int_add[of m 1])

lemma int32_unit_range:
  "- (2 ^ 31) \<le> m \<Longrightarrow> m + 1 \<le> 2 ^ 31 \<Longrightarrow>
   unbiasedRandomInt32 (Some m) (Some (m + 1)) f s = Some (Inr m, s)"
  by (simp add: unbiasedRandomInt32_def assertSafeRangeInt32_def MIN_SAFE_INT32_INCLUSIVE_def
      MAX_SAFE_INT32_EXCLUSIVE_def nullish_def sampler_one Let_def js_or0_id)

lemma bitwiseFract32ToUint32_floor:
  assumes "0 \<le> (q::rat)" "q < 1"
  shows "bitwiseFract32ToUint32 q = \<lfloor>q * 2 ^ 32\<rfloor>"
proof -
  have pos: "0 \<le> q * 2 ^ 32" using assms by simp
  then have t: "js_trunc (q * 2 ^ 32) = \<lfloor>q * 2 ^ 32\<rfloor>" by (simp add: js_trunc_def)
  have "q * 2 ^ 32 < 2 ^ 32" using assms by simp
  then have lt: "\<lfloor>q * 2 ^ 32\<rfloor> < 2 ^ 32" by (simp add: floor_less_iff)
  have nn: "0 \<le> \<lfloor>q * 2 ^ 32\<rfloor>" using pos by simp
  show ?thesis unfolding bitwiseFract32ToUint32_def t using nn lt by (rule js_ushr0_id)
qed

lemma fract32_unit_range:
  assumes "0 \<le> q" "q + ONE_BIT_AS_FRACT32 \<le> 1"
  shows "unbiasedRandomFract32 (Some q) (Some (q + ONE_BIT_AS_FRACT32)) g s = Some (Inr q, s)"
proof -
  have q1: "q < 1" using assms by (simp add: ONE_BIT_AS_FRACT32_def)
  have ok: "assertSafeRangeFract32 q (q + ONE_BIT_AS_FRACT32) = Inr ()"
    using assms by (simp add: assertSafeRangeFract32_def MIN_SAFE_FRACT32_INCLUSIVE_def
        MAX_SAFE_FRACT32_EXCLUSIVE_def ONE_BIT_AS_FRACT32_def)
  have lo: "bitwiseFract32ToUint32 q = \<lfloor>q * 2 ^ 32\<rfloor>"
    using assms(1) q1 by (rule bitwiseFract32ToUint32_floor)
  show ?thesis
  proof (cases "q + ONE_BIT_AS_FRACT32 = MAX_SAFE_FRACT32_EXCLUSIVE")
    case True
    then have "q * 2 ^ 32 = 2 ^ 32 - 1"
      by (simp add: ONE_BIT_AS_FRACT32_def MAX_SAFE_FRACT32_EXCLUSIVE_def field_simps)
    then have "\<lfloor>q * 2 ^ 32\<rfloor> = 2 ^ 32 - 1" by simp
    then have r: "MAX_SAFE_UINT32_EXCLUSIVE - bitwiseFract32ToUint32 q = 1"
      unfolding lo MAX_SAFE_UINT32_EXCLUSIVE_def by simp
    show ?thesis
      using ok True r unfolding unbiasedRandomFract32_def Let_def nullish_def
      by (simp add: sampler_one bitwiseUint32ToFract32_def)
  next
    case False
    then have lt: "q + ONE_BIT_AS_FRACT32 < 1"
      using assms(2) by (simp add: MAX_SAFE_FRACT32_EXCLUSIVE_def)
    have nn: "0 \<le> q + ONE_BIT_AS_FRACT32" using assms(1) by (simp add: ONE_BIT_AS_FRACT32_def)
    have "bitwiseFract32ToUint32 (q + ONE_BIT_AS_FRACT32) = \<lfloor>(q + ONE_BIT_AS_FRACT32) * 2 ^ 32\<rfloor>"
      using nn lt by (rule bitwiseFract32ToUint32_floor)
    also have "(q + ONE_BIT_AS_FRACT32) * 2 ^ 32 = q * 2 ^ 32 + 1"
      by (simp add: ONE_BIT_AS_FRACT32_def field_simps)
    finally have r: "bitwiseFract32ToUint32 (q + ONE_BIT_AS_FRACT32) - bitwiseFract32ToUint32 q = 1"
      unfolding lo by simp
    show ?thesis
      using ok False r unfolding unbiasedRandomFract32_def Let_def nullish_def
      by (simp add: sampler_one bitwiseUint32ToFract32_def)
  qed
qed

text \<open>
  \<^bold>\<open>C3.\<close>  With a range of 1 the sampler returns 0 and leaves the source in the state it
  found it, whatever the source is: the source is not invoked.  Hence each wrapper, called
  with a maximum exactly one unit above the minimum (\<open>2\<^sup>-\<^sup>3\<^sup>2\<close> for fractions, 1 for the integer
  domains) inside its domain, returns the minimum, again with the source untouched.
\<close>

theorem unit_range_returns_minimum_without_draw:
  "unbiasedRandomUint32FromRange 1 f s = Some (0, s)
   \<and> (0 \<le> q \<and> q + ONE_BIT_AS_FRACT32 \<le> 1 \<longrightarrow>
        unbiasedRandomFract32 (Some q) (Some (q + ONE_BIT_AS_FRACT32)) g s = Some (Inr q, s))
   \<and> (- (2 ^ 31) \<le> i \<and> i + 1 \<le> 2 ^ 31 \<longrightarrow>
        unbiasedRandomInt32 (Some i) (Some (i + 1)) f s = Some (Inr i, s))
   \<and> (0 \<le> u \<and> u + 1 \<le> 2 ^ 32 \<longrightarrow>
        unbiasedRandomUint32 (Some (of_int u)) (Some (of_int u + 1)) f s = Some (Inr u, s))"
proof -
  have a: "unbiasedRandomUint32FromRange 1 f s = Some (0, s)" by (rule sampler_one)
  have b: "0 \<le> q \<and> q + ONE_BIT_AS_FRACT32 \<le> 1 \<longrightarrow>
        unbiasedRandomFract32 (Some q) (Some (q + ONE_BIT_AS_FRACT32)) g s = Some (Inr q, s)"
    using fract32_unit_range by (intro impI) (elim conjE)
  have c: "- (2 ^ 31) \<le> i \<and> i + 1 \<le> 2 ^ 31 \<longrightarrow>
        unbiasedRandomInt32 (Some i) (Some (i + 1)) f s = Some (Inr i, s)"
    using int32_unit_range by (intro impI) (elim conjE)
  have d: "0 \<le> u \<and> u + 1 \<le> 2 ^ 32 \<longrightarrow>
        unbiasedRandomUint32 (Some (of_int u)) (Some (of_int u + 1)) f s = Some (Inr u, s)"
    using uint32_unit_range by (intro impI) (elim conjE)
  show ?thesis by (rule conjI[OF a conjI[OF b conjI[OF c d]]])
qed

theorem unit_range_returns_minimum_without_draw_witness:
  "unbiasedRandomFract32 (Some (1 / 8)) (Some (1 / 8 + ONE_BIT_AS_FRACT32)) (stub [] (1 / 10)) (0::nat)
     = Some (Inr (1 / 8), 0)
   \<and> unbiasedRandomInt32 (Some (- 5)) (Some (- 5 + 1)) (stub [] 1) (0::nat) = Some (Inr (- 5), 0)
   \<and> unbiasedRandomUint32 (Some (of_int 123)) (Some (of_int 123 + 1)) (stub [] 1) (0::nat)
     = Some (Inr 123, 0)"
proof -
  note T = unit_range_returns_minimum_without_draw[of "stub [] 1" "0::nat" "1 / 8" "stub [] (1 / 10)"
      "- 5" 123]
  have hq: "(0::rat) \<le> 1 / 8 \<and> 1 / 8 + ONE_BIT_AS_FRACT32 \<le> 1"
    by (simp add: ONE_BIT_AS_FRACT32_def)
  have hi: "- (2 ^ 31) \<le> (- 5 :: int) \<and> (- 5 :: int) + 1 \<le> 2 ^ 31" by simp
  have hu: "(0::int) \<le> 123 \<and> (123::int) + 1 \<le> 2 ^ 32" by simp
  show ?thesis
    by (rule conjI[OF mp[OF T[THEN conjunct2, THEN conjunct1] hq]
          conjI[OF mp[OF T[THEN conjunct2, THEN conjunct2, THEN conjunct1] hi]
                   mp[OF T[THEN conjunct2, THEN conjunct2, THEN conjunct2] hu]]])
qed

text \<open>
  \<^bold>\<open>C7.\<close>  With both bounds omitted each wrapper returns the value of one invocation of
  its raw source, unchanged, and leaves the source in the state after that one invocation:
  no bound is looked at and the sampler is not entered.  On an instrumented source the
  call count goes from 0 to 1.
\<close>

theorem omitted_bounds_return_raw_value:
  "unbiasedRandomFract32 None None g s = Some (Inr (fst (g s)), snd (g s))
   \<and> unbiasedRandomInt32 None None f s = Some (Inr (fst (f s)), snd (f s))
   \<and> unbiasedRandomUint32 None None f s = Some (Inr (fst (f s)), snd (f s))
   \<and> unbiasedRandomFract32 None None (stub [x] d) 0 = Some (Inr x, 1)
   \<and> unbiasedRandomInt32 None None (stub [y] e) 0 = Some (Inr y, 1)
   \<and> unbiasedRandomUint32 None None (stub [y] e) 0 = Some (Inr y, 1)"
  by (simp add: unbiasedRandomFract32_def unbiasedRandomInt32_def unbiasedRandomUint32_def
      stub_def case_prod_beta)




lemma fract32_throws:
  assumes "minInclusive \<noteq> None \<or> maxExclusive \<noteq> None"
    and "assertSafeRangeFract32 (nullish minInclusive MIN_SAFE_FRACT32_INCLUSIVE)
           (nullish maxExclusive MAX_SAFE_FRACT32_EXCLUSIVE) = Inl e"
  shows "unbiasedRandomFract32 minInclusive maxExclusive g s = Some (Inl e, s)"
  using assms by (auto simp: unbiasedRandomFract32_def Let_def)


lemma int32_throws:
  assumes "minInclusive \<noteq> None \<or> maxExclusive \<noteq> None"
    and "assertSafeRangeInt32 (nullish minInclusive MIN_SAFE_INT32_INCLUSIVE)
           (nullish maxExclusive MAX_SAFE_INT32_EXCLUSIVE) = Inl e"
  shows "unbiasedRandomInt32 minInclusive maxExclusive f s = Some (Inl e, s)"
  using assms by (auto simp: unbiasedRandomInt32_def Let_def)


lemma uint32_throws:
  assumes "minInclusive \<noteq> None \<or> maxExclusive \<noteq> None"
    and "assertSafeRangeUint32 (nullish minInclusive (of_int MIN_SAFE_UINT32_INCLUSIVE))
           (nullish maxExclusive (of_int MAX_SAFE_UINT32_EXCLUSIVE)) = Inl e"
  shows "unbiasedRandomUint32 minInclusive maxExclusive f s = Some (Inl e, s)"
  using assms by (auto simp: unbiasedRandomUint32_def Let_def)








section \<open>Properties of seed derivation\<close>

lemma sint_eq_wrap_int32: "sint (word_of_int x :: 32 word) = wrap_int32 x"
proof -
  have "sint (word_of_int x :: 32 word) = signed_take_bit 31 x"
    by (simp add: signed_of_int)
  also have "\<dots> = wrap_int32 x"
    by (simp add: signed_take_bit_eq_take_bit_shift take_bit_eq_mod wrap_int32_def)
  finally show ?thesis .
qed

lemma wrap_int32_range: "- (2 ^ 31) \<le> wrap_int32 x \<and> wrap_int32 x < 2 ^ 31"
proof -
  have "0 \<le> (x + 2 ^ 31) mod 2 ^ 32" "(x + 2 ^ 31) mod 2 ^ 32 < 2 ^ 32"
    by simp_all
  then show ?thesis unfolding wrap_int32_def by simp
qed

lemma hash_step:
  "js_and (js_shl result 5 - result + ch) (js_shl result 5 - result + ch)
     = wrap_int32 (result * 31 + ch)"
proof -
  have "(word_of_int (js_shl result 5 - result + ch) :: 32 word)
          = push_bit 5 (word_of_int result) - word_of_int result + word_of_int ch"
    by (simp add: js_shl_def)
  also have "\<dots> = word_of_int (result * 31 + ch)"
    by (simp add: push_bit_eq_mult)
  finally have eq: "(word_of_int (js_shl result 5 - result + ch) :: 32 word)
          = word_of_int (result * 31 + ch)" .
  have "js_and (js_shl result 5 - result + ch) (js_shl result 5 - result + ch)
          = sint (word_of_int (js_shl result 5 - result + ch) :: 32 word)"
    by (simp add: js_and_def)
  also have "\<dots> = sint (word_of_int (result * 31 + ch) :: 32 word)"
    by (simp only: eq)
  also have "\<dots> = wrap_int32 (result * 31 + ch)"
    by (rule sint_eq_wrap_int32)
  finally show ?thesis .
qed

lemma hash_loop_eq_spec: "hash_loop result cs = spec_string_hash result cs"
  by (induction cs arbitrary: result) (simp_all add: Let_def hash_step)

lemma spec_string_hash_range:
  "- (2 ^ 31) \<le> result \<and> result < 2 ^ 31 \<Longrightarrow>
   - (2 ^ 31) \<le> spec_string_hash result cs \<and> spec_string_hash result cs < 2 ^ 31"
proof (induction cs arbitrary: result)
  case Nil
  then show ?case by simp
next
  case (Cons c cs)
  show ?case unfolding spec_string_hash.simps
    by (rule Cons.IH) (rule wrap_int32_range)
qed

lemma seedToUint32_num: "seedToUint32 (NumSeed n) = js_trunc n mod 2 ^ 32"
  by (simp add: seedToUint32_def js_ushr_eq)

text \<open>
  \<^bold>\<open>C8.\<close>  A finite numeric seed is mapped to its integer part (the fraction is dropped
  towards zero, as ToUint32 does) reduced modulo \<open>2\<^sup>3\<^sup>2\<close>, a value in \<open>[0, 2\<^sup>3\<^sup>2)\<close>; for an
  integer seed that is the seed modulo \<open>2\<^sup>3\<^sup>2\<close>.  A string seed is mapped to the fold
  \<^verbatim>\<open>result = result*31 + charCode\<close> over its code units, wrapped to 32-bit two's complement
  at every step: one value of 32 bits, and 0 for the empty string.
\<close>

theorem seedToUint32_wraps_numbers_and_hashes_strings:
  "seedToUint32 (NumSeed n) = js_trunc n mod 2 ^ 32
   \<and> seedToUint32 (NumSeed (of_int k)) = k mod 2 ^ 32
   \<and> 0 \<le> seedToUint32 (NumSeed n) \<and> seedToUint32 (NumSeed n) < 2 ^ 32
   \<and> seedToUint32 (StrSeed str) = spec_string_hash 0 str
   \<and> seedToUint32 (StrSeed str) = sint (fold (\<lambda>c h. h * 31 + ucast c) str (0 :: 32 word))
   \<and> seedToUint32 (StrSeed []) = 0
   \<and> - (2 ^ 31) \<le> seedToUint32 (StrSeed str) \<and> seedToUint32 (StrSeed str) < 2 ^ 31"
proof -
  have a: "seedToUint32 (NumSeed n) = js_trunc n mod 2 ^ 32" by (rule seedToUint32_num)
  have b: "seedToUint32 (NumSeed (of_int k)) = k mod 2 ^ 32"
    by (simp add: seedToUint32_num js_trunc_def)
  have c: "0 \<le> seedToUint32 (NumSeed n)" by (simp add: seedToUint32_num)
  have d: "seedToUint32 (NumSeed n) < 2 ^ 32" by (simp add: seedToUint32_num)
  have e: "seedToUint32 (StrSeed str) = spec_string_hash 0 str"
    by (simp add: seedToUint32_def hash_loop_eq_spec)
  have gen: "spec_string_hash (sint w) cs = sint (fold (\<lambda>c h. h * 31 + ucast c) cs (w :: 32 word))"
    for w cs
  proof (induction cs arbitrary: w)
    case Nil
    show ?case by simp
  next
    case (Cons c cs)
    have "wrap_int32 (sint w * 31 + uint c) = sint (w * 31 + ucast c)"
      by (simp add: sint_eq_wrap_int32[symmetric])
    then show ?case by (simp add: Cons.IH)
  qed
  have g: "seedToUint32 (StrSeed str) = sint (fold (\<lambda>c h. h * 31 + ucast c) str (0 :: 32 word))"
    using gen[of 0 str] by (simp add: e)
  have h: "seedToUint32 (StrSeed []) = 0" by (simp add: seedToUint32_def)
  have r: "- (2 ^ 31) \<le> seedToUint32 (StrSeed str) \<and> seedToUint32 (StrSeed str) < 2 ^ 31"
    unfolding e by (rule spec_string_hash_range) simp
  show ?thesis
    by (rule conjI[OF a conjI[OF b conjI[OF c conjI[OF d conjI[OF e conjI[OF g conjI[OF h r]]]]]]])
qed

text \<open>
  \<^bold>\<open>C9.\<close>  For a string seed the result is the signed reading of the hash, an integer in
  \<open>[-2\<^sup>3\<^sup>1, 2\<^sup>3\<^sup>1)\<close>, and it is negative for some strings: for \<^verbatim>\<open>"abcdef"\<close> it is
  \<open>-1424385949\<close>.  So \<^verbatim>\<open>seedToUint32\<close> does not always return an unsigned 32-bit integer,
  although its numeric branch does.
\<close>

theorem seedToUint32_of_string_is_signed:
  "- (2 ^ 31) \<le> seedToUint32 (StrSeed str) \<and> seedToUint32 (StrSeed str) < 2 ^ 31
   \<and> seedToUint32 (StrSeed [97, 98, 99, 100, 101, 102]) = - 1424385949
   \<and> (\<exists>str. seedToUint32 (StrSeed str) < 0)
   \<and> 0 \<le> seedToUint32 (NumSeed n)"
proof -
  have r: "- (2 ^ 31) \<le> seedToUint32 (StrSeed str) \<and> seedToUint32 (StrSeed str) < 2 ^ 31"
    unfolding seedToUint32_def seed.case hash_loop_eq_spec
    by (rule spec_string_hash_range) simp
  have v: "seedToUint32 (StrSeed [97, 98, 99, 100, 101, 102]) = - 1424385949"
    by code_simp
  have ex: "\<exists>str. seedToUint32 (StrSeed str) < 0"
    by (rule exI[of _ "[97, 98, 99, 100, 101, 102]"]) (simp add: v)
  have n: "0 \<le> seedToUint32 (NumSeed n)" by (simp add: seedToUint32_num)
  show ?thesis
    by (rule conjI[OF conjunct1[OF r] conjI[OF conjunct2[OF r] conjI[OF v conjI[OF ex n]]]])
qed

section \<open>The Alea state invariant\<close>

lemma exact_on_gridD:
  "exact_on_grid fl \<Longrightarrow> \<bar>k\<bar> \<le> 2 ^ 53 \<Longrightarrow> fl (of_int k / 2 ^ 32) = of_int k / 2 ^ 32"
  by (simp add: exact_on_grid_def)

lemma fract32I: "0 \<le> k \<Longrightarrow> k < 2 ^ 32 \<Longrightarrow> fract32 (of_int k / 2 ^ 32)"
  unfolding fract32_def by (intro exI[of _ k]) simp

lemma fract32_range: "fract32 q \<Longrightarrow> 0 \<le> q \<and> q < 1"
  by (auto simp: fract32_def)

lemma mash_fract32:
  assumes "exact_on_grid fl"
  shows "fract32 (fst (mash fl data n))"
proof -
  define u where "u = js_ushr (js_trunc (mash_loop fl n data)) 0"
  have u0: "0 \<le> u" unfolding u_def by (rule js_ushr_nonneg)
  have u1: "u < 2 ^ 32" unfolding u_def by (simp add: js_ushr_eq)
  have "\<bar>u\<bar> \<le> 2 ^ 53" using u0 u1 by simp
  from exact_on_gridD[OF assms this]
  have "fl (of_int u * (1 / 2 ^ 32)) = of_int u / 2 ^ 32" by simp
  then have "fst (mash fl data n) = of_int u / 2 ^ 32"
    by (simp add: mash_def Let_def u_def)
  then show ?thesis by (simp only: fract32I[OF u0 u1])
qed

lemma alea_adjust_fract32:
  assumes ex: "exact_on_grid fl" and s: "fract32 s" and m: "fract32 m"
  shows "fract32 (alea_adjust fl s m)"
proof -
  from s obtain a :: int where a: "0 \<le> a" "a < 2 ^ 32" "s = of_int a / 2 ^ 32"
    by (auto simp: fract32_def)
  from m obtain b :: int where b: "0 \<le> b" "b < 2 ^ 32" "m = of_int b / 2 ^ 32"
    by (auto simp: fract32_def)
  have d: "s - m = of_int (a - b) / 2 ^ 32" by (simp add: a(3) b(3) diff_divide_distrib)
  have "\<bar>a - b\<bar> \<le> 2 ^ 53" using a b by simp
  from exact_on_gridD[OF ex this] have fd: "fl (s - m) = of_int (a - b) / 2 ^ 32"
    unfolding d .
  show ?thesis
  proof (cases "a - b < 0")
    case False
    then have "\<not> fl (s - m) < 0" unfolding fd by (simp add: zero_le_divide_iff)
    then have "alea_adjust fl s m = of_int (a - b) / 2 ^ 32"
      by (simp add: alea_adjust_def Let_def fd)
    moreover have "fract32 (of_int (a - b) / 2 ^ 32)"
      using False a b by (intro fract32I) simp_all
    ultimately show ?thesis by (simp only:)
  next
    case True
    then have neg: "fl (s - m) < 0" unfolding fd by (simp add: divide_less_0_iff)
    have p: "of_int (a - b) / 2 ^ 32 + (1::rat) = of_int (a - b + 2 ^ 32) / 2 ^ 32"
      by (simp add: add_divide_distrib)
    have "\<bar>a - b + 2 ^ 32\<bar> \<le> 2 ^ 53" using a b by simp
    from exact_on_gridD[OF ex this]
    have "fl (of_int (a - b) / 2 ^ 32 + 1) = of_int (a - b + 2 ^ 32) / 2 ^ 32"
      unfolding p .
    then have "alea_adjust fl s m = of_int (a - b + 2 ^ 32) / 2 ^ 32"
      using neg by (simp add: alea_adjust_def Let_def fd)
    moreover have "fract32 (of_int (a - b + 2 ^ 32) / 2 ^ 32)"
      using True a b by (intro fract32I) simp_all
    ultimately show ?thesis by (simp only:)
  qed
qed

lemma alea_seeded_invariant:
  assumes ex: "exact_on_grid fl"
  shows "alea_invariant (Alea_buildStateFromSeed fl numToString seed)"
  unfolding Alea_buildStateFromSeed_def Let_def alea_invariant_def
  by (simp add: case_prod_beta alea_adjust_fract32[OF ex] mash_fract32[OF ex])

lemma alea_step:
  assumes ex: "exact_on_grid fl" and inv: "alea_invariant state"
  shows "alea_invariant (snd (Alea_internalNextFract32 fl state))
       \<and> fract32 (fst (Alea_internalNextFract32 fl state))"
proof -
  from inv obtain k :: int where k: "0 \<le> k" "k < 2 ^ 32" "alea_s0 state = of_int k / 2 ^ 32"
    by (auto simp: alea_invariant_def fract32_def)
  from inv have c: "0 \<le> alea_c state" "alea_c state \<le> 2091639"
    and s1: "fract32 (alea_s1 state)" and s2: "fract32 (alea_s2 state)"
    by (simp_all add: alea_invariant_def)
  define N where "N = 2091639 * k + alea_c state"
  have N0: "0 \<le> N" unfolding N_def using k(1) c(1) by simp
  have N1: "N \<le> 2091639 * 2 ^ 32" unfolding N_def using k(2) c(2) by simp
  have p1: "2091639 * alea_s0 state = of_int (2091639 * k) / 2 ^ 32" by (simp add: k(3))
  have "\<bar>2091639 * k\<bar> \<le> 2 ^ 53" using k by simp
  from exact_on_gridD[OF ex this]
  have f1: "fl (2091639 * alea_s0 state) = of_int (2091639 * k) / 2 ^ 32" unfolding p1 .
  have "\<bar>alea_c state\<bar> \<le> 2 ^ 53" using c by simp
  from exact_on_gridD[OF ex this]
  have f2: "fl (of_int (alea_c state) * (1 / 2 ^ 32)) = of_int (alea_c state) / 2 ^ 32" by simp
  have p3: "of_int (2091639 * k) / 2 ^ 32 + of_int (alea_c state) / (2 ^ 32 :: rat) = of_int N / 2 ^ 32"
    by (simp add: N_def add_divide_distrib)
  have "\<bar>N\<bar> \<le> 2 ^ 53" using N0 N1 by simp
  from exact_on_gridD[OF ex this]
  have t: "fl (fl (2091639 * alea_s0 state) + fl (of_int (alea_c state) * (1 / 2 ^ 32)))
             = of_int N / 2 ^ 32"
    unfolding f1 f2 p3 .
  have tr: "js_trunc (of_int N / 2 ^ 32) = N div 2 ^ 32"
  proof -
    have "(0::rat) \<le> of_int N / 2 ^ 32" using N0 by simp
    then have "js_trunc (of_int N / 2 ^ 32) = \<lfloor>(of_int N / 2 ^ 32 :: rat)\<rfloor>"
      by (simp only: js_trunc_def if_True)
    also have "\<dots> = \<lfloor>(of_int N / of_int (2 ^ 32) :: rat)\<rfloor>" by simp
    also have "\<dots> = N div 2 ^ 32" by (rule floor_divide_of_int_eq)
    finally show ?thesis .
  qed
  have q0: "0 \<le> N div 2 ^ 32" using N0 by (simp add: pos_imp_zdiv_nonneg_iff)
  have q1: "N div 2 ^ 32 \<le> 2091639"
  proof -
    have "N div 2 ^ 32 \<le> (2091639 * 2 ^ 32) div 2 ^ 32" using N1 by (rule zdiv_mono1) simp
    then show ?thesis by simp
  qed
  have c': "js_or (N div 2 ^ 32) 0 = N div 2 ^ 32"
    using q0 q1 by (intro js_or0_id) simp_all
  have p4: "of_int N / 2 ^ 32 - of_int (N div 2 ^ 32) = (of_int (N mod 2 ^ 32) / 2 ^ 32 :: rat)"
  proof -
    have "N = 2 ^ 32 * (N div 2 ^ 32) + N mod 2 ^ 32" by simp
    then have "(of_int N :: rat) = of_int (2 ^ 32 * (N div 2 ^ 32) + N mod 2 ^ 32)" by simp
    then have "(of_int N :: rat) = 2 ^ 32 * of_int (N div 2 ^ 32) + of_int (N mod 2 ^ 32)"
      by (simp only: of_int_add of_int_mult of_int_power of_int_numeral)
    then show ?thesis by (simp add: field_simps)
  qed
  have m0: "0 \<le> N mod 2 ^ 32" and m1: "N mod 2 ^ 32 < 2 ^ 32" by simp_all
  have "\<bar>N mod 2 ^ 32\<bar> \<le> 2 ^ 53" using m0 m1 by simp
  from exact_on_gridD[OF ex this]
  have f4: "fl (of_int N / 2 ^ 32 - of_int (N div 2 ^ 32)) = of_int (N mod 2 ^ 32) / 2 ^ 32"
    unfolding p4 .
  define T :: rat where "T = of_int N / 2 ^ 32"
  define Q where "Q = N div 2 ^ 32"
  define S :: rat where "S = of_int (N mod 2 ^ 32) / 2 ^ 32"
  note t' = t[folded T_def] and tr' = tr[folded T_def Q_def] and c'' = c'[folded Q_def]
    and f4' = f4[folded T_def Q_def S_def]
  have res: "Alea_internalNextFract32 fl state =
      (S, \<lparr>alea_c = Q, alea_s0 = alea_s1 state, alea_s1 = alea_s2 state, alea_s2 = S\<rparr>)"
    unfolding Alea_internalNextFract32_def Let_def t'
    by (simp add: tr' c'' f4')
  have g: "fract32 S" unfolding S_def using m0 m1 by (rule fract32I)
  have "0 \<le> Q" "Q \<le> 2091639" unfolding Q_def using q0 q1 by simp_all
  then show ?thesis unfolding res using g s1 s2 by (simp add: alea_invariant_def)
qed

lemma alea_reachable_invariant:
  assumes ex: "exact_on_grid fl" and r: "alea_reachable fl numToString state"
  shows "alea_invariant state"
  using r
proof (induction rule: alea_reachable.induct)
  case (seeded seed)
  show ?case by (rule alea_seeded_invariant[OF ex])
next
  case (advanced state)
  then show ?case using alea_step[OF ex] by blast
qed

text \<open>
  \<^bold>\<open>C10.\<close>  Where doubles hold 53-bit multiples of \<open>2\<^sup>-\<^sup>3\<^sup>2\<close> exactly, every Alea state reached by
  seeding (from any seed) and any number of advances has its accumulators \<^verbatim>\<open>s0\<close>, \<^verbatim>\<open>s1\<close>,
  \<^verbatim>\<open>s2\<close> in \<open>[0, 1)\<close> and its carry \<^verbatim>\<open>c\<close> an integer in \<open>[0, 2091639]\<close>; an advance from a state
  with the invariant (accumulators on the 32-bit grid) leads to one with it; and in every
  reachable state \<^verbatim>\<open>internalNextFract32\<close>, which is what \<^verbatim>\<open>nextFract32\<close> returns when both
  bounds are omitted, yields a value in \<open>[0, 1)\<close>.
\<close>

theorem alea_state_invariant:
  assumes "exact_on_grid fl"
  shows "(alea_reachable fl numToString state \<longrightarrow>
            0 \<le> alea_s0 state \<and> alea_s0 state < 1 \<and> 0 \<le> alea_s1 state \<and> alea_s1 state < 1
          \<and> 0 \<le> alea_s2 state \<and> alea_s2 state < 1
          \<and> 0 \<le> alea_c state \<and> alea_c state \<le> 2091639
          \<and> 0 \<le> fst (Alea_internalNextFract32 fl state)
          \<and> fst (Alea_internalNextFract32 fl state) < 1
          \<and> unbiasedRandomFract32 None None (Alea_internalNextFract32 fl) state
              = Some (Inr (fst (Alea_internalNextFract32 fl state)),
                      snd (Alea_internalNextFract32 fl state)))
       \<and> (alea_invariant state' \<longrightarrow> alea_invariant (snd (Alea_internalNextFract32 fl state')))
       \<and> (alea_reachable fl numToString state \<longrightarrow> alea_invariant state)"
proof -
  have inv: "alea_reachable fl numToString state \<longrightarrow> alea_invariant state"
    using alea_reachable_invariant[OF assms] by (rule impI)
  have pres: "alea_invariant state' \<longrightarrow> alea_invariant (snd (Alea_internalNextFract32 fl state'))"
    using alea_step[OF assms] by (intro impI) (rule conjunct1)
  have main: "alea_reachable fl numToString state \<longrightarrow>
            0 \<le> alea_s0 state \<and> alea_s0 state < 1 \<and> 0 \<le> alea_s1 state \<and> alea_s1 state < 1
          \<and> 0 \<le> alea_s2 state \<and> alea_s2 state < 1
          \<and> 0 \<le> alea_c state \<and> alea_c state \<le> 2091639
          \<and> 0 \<le> fst (Alea_internalNextFract32 fl state)
          \<and> fst (Alea_internalNextFract32 fl state) < 1
          \<and> unbiasedRandomFract32 None None (Alea_internalNextFract32 fl) state
              = Some (Inr (fst (Alea_internalNextFract32 fl state)),
                      snd (Alea_internalNextFract32 fl state))"
  proof
    assume "alea_reachable fl numToString state"
    then have i: "alea_invariant state" by (rule alea_reachable_invariant[OF assms])
    from alea_step[OF assms i] have o: "fract32 (fst (Alea_internalNextFract32 fl state))"
      by (rule conjunct2)
    have w: "unbiasedRandomFract32 None None (Alea_internalNextFract32 fl) state
              = Some (Inr (fst (Alea_internalNextFract32 fl state)),
                      snd (Alea_internalNextFract32 fl state))"
      by (simp add: unbiasedRandomFract32_def case_prod_beta)
    from i have "fract32 (alea_s0 state)" "fract32 (alea_s1 state)" "fract32 (alea_s2 state)"
      "0 \<le> alea_c state" "alea_c state \<le> 2091639"
      by (simp_all add: alea_invariant_def)
    with o w show "0 \<le> alea_s0 state \<and> alea_s0 state < 1 \<and> 0 \<le> alea_s1 state \<and> alea_s1 state < 1
          \<and> 0 \<le> alea_s2 state \<and> alea_s2 state < 1
          \<and> 0 \<le> alea_c state \<and> alea_c state \<le> 2091639
          \<and> 0 \<le> fst (Alea_internalNextFract32 fl state)
          \<and> fst (Alea_internalNextFract32 fl state) < 1
          \<and> unbiasedRandomFract32 None None (Alea_internalNextFract32 fl) state
              = Some (Inr (fst (Alea_internalNextFract32 fl state)),
                      snd (Alea_internalNextFract32 fl state))"
      using fract32_range by (intro conjI) (simp_all only:)
  qed
  show ?thesis by (rule conjI[OF main conjI[OF pres inv]])
qed

theorem alea_state_invariant_witness:
  "exact_on_grid (\<lambda>x. x)
   \<and> alea_reachable (\<lambda>x. x) (\<lambda>n. []) (Alea_buildStateFromSeed (\<lambda>x. x) (\<lambda>n. []) (StrSeed [97]))
   \<and> 0 \<le> alea_s0 (Alea_buildStateFromSeed (\<lambda>x. x) (\<lambda>n. []) (StrSeed [97]))
   \<and> alea_s0 (Alea_buildStateFromSeed (\<lambda>x. x) (\<lambda>n. []) (StrSeed [97])) < 1
   \<and> alea_c (Alea_buildStateFromSeed (\<lambda>x. x) (\<lambda>n. []) (StrSeed [97])) \<le> 2091639
   \<and> fst (Alea_internalNextFract32 (\<lambda>x. x)
             (Alea_buildStateFromSeed (\<lambda>x. x) (\<lambda>n. []) (StrSeed [97]))) < 1
   \<and> alea_invariant (Alea_buildStateFromSeed (\<lambda>x. x) (\<lambda>n. []) (StrSeed [97]))
   \<and> alea_invariant (snd (Alea_internalNextFract32 (\<lambda>x. x)
             (Alea_buildStateFromSeed (\<lambda>x. x) (\<lambda>n. []) (StrSeed [97]))))"
proof -
  let ?st = "Alea_buildStateFromSeed (\<lambda>x. x) (\<lambda>n. []) (StrSeed [97])"
  have ex: "exact_on_grid (\<lambda>x. x)" by (simp add: exact_on_grid_def)
  have re: "alea_reachable (\<lambda>x. x) (\<lambda>n. []) ?st" by (rule alea_reachable.seeded)
  note T = alea_state_invariant[OF ex, of "\<lambda>n. []" ?st ?st]
  note M = mp[OF T[THEN conjunct1] re]
  have inv: "alea_invariant ?st" by (rule mp[OF T[THEN conjunct2, THEN conjunct2] re])
  have nxt: "alea_invariant (snd (Alea_internalNextFract32 (\<lambda>x. x) ?st))"
    by (rule mp[OF T[THEN conjunct2, THEN conjunct1] inv])
  from M have a: "0 \<le> alea_s0 ?st" and b: "alea_s0 ?st < 1" and c: "alea_c ?st \<le> 2091639"
    and d: "fst (Alea_internalNextFract32 (\<lambda>x. x) ?st) < 1"
    by (rule conjunct1 | simp only:)+
  show ?thesis
    by (rule conjI[OF ex conjI[OF re conjI[OF a conjI[OF b conjI[OF c conjI[OF d conjI[OF inv nxt]]]]]]])
qed

section \<open>Corresponding sources give related outcomes\<close>

lemma correspondsD:
  "corresponds R f g \<Longrightarrow> R s t \<Longrightarrow> fst (f s) = fst (g t) \<and> R (snd (f s)) (snd (g t))"
  by (simp add: corresponds_def)

lemma draws_corresponds:
  assumes "corresponds R f g"
  shows "R s t \<Longrightarrow> R (draws f s k) (draws g t k)"
proof (induction k arbitrary: s t)
  case 0
  then show ?case by simp
next
  case (Suc k)
  from correspondsD[OF assms Suc.prems] have "R (snd (f s)) (snd (g t))" by (rule conjunct2)
  then have "R (draws f (snd (f s)) k) (draws g (snd (g t)) k)" by (rule Suc.IH)
  then show ?case by simp
qed

lemma nth_draw_corresponds:
  assumes "corresponds R f g" and "R s t"
  shows "nth_draw f s k = nth_draw g t k"
  unfolding nth_draw_def
  using correspondsD[OF assms(1) draws_corresponds[OF assms, of k]] by (rule conjunct1)

lemma sample_loop_corresponds:
  assumes c: "corresponds R f g" and r: "R s t"
  shows "outcome_rel R (sample_loop rng m f s) (sample_loop rng m g t)"
proof (cases "\<exists>k. masked m (nth_draw f s k) < rng")
  case True
  define k where "k = (LEAST k. masked m (nth_draw f s k) < rng)"
  have acc: "masked m (nth_draw f s k) < rng"
    unfolding k_def using True by (rule LeastI_ex)
  have rej: "\<forall>j<k. rng \<le> masked m (nth_draw f s j)"
  proof (intro allI impI)
    fix j assume "j < k"
    then have "\<not> masked m (nth_draw f s j) < rng"
      unfolding k_def by (rule not_less_Least)
    then show "rng \<le> masked m (nth_draw f s j)" by simp
  qed
  have eq: "nth_draw g t j = nth_draw f s j" for j
    using nth_draw_corresponds[OF c r, of j] by simp
  have 1: "sample_loop rng m f s = Some (masked m (nth_draw f s k), draws f s (Suc k))"
    by (rule sample_loop_first[OF rej acc])
  have rej': "\<forall>j<k. rng \<le> masked m (nth_draw g t j)" using rej by (simp add: eq)
  have acc': "masked m (nth_draw g t k) < rng" using acc by (simp add: eq)
  have 2: "sample_loop rng m g t = Some (masked m (nth_draw f s k), draws g t (Suc k))"
    using sample_loop_first[OF rej' acc'] by (simp only: eq)
  show ?thesis
    unfolding 1 2 using draws_corresponds[OF c r, of "Suc k"]
    by (simp add: outcome_rel_def del: draws.simps)
next
  case False
  then have none: "\<forall>k. rng \<le> masked m (nth_draw f s k)" by (simp add: not_less)
  then have none': "\<forall>k. rng \<le> masked m (nth_draw g t k)"
    using nth_draw_corresponds[OF c r] by simp
  show ?thesis
    by (simp add: sample_loop_None[OF none] sample_loop_None[OF none'] outcome_rel_def)
qed

lemma sampler_corresponds:
  assumes "corresponds R f g" and "R s t"
  shows "outcome_rel R (unbiasedRandomUint32FromRange rng f s)
           (unbiasedRandomUint32FromRange rng g t)"
proof (cases "rng = 1")
  case True
  then show ?thesis using assms(2) by (simp add: unbiasedRandomUint32FromRange_def outcome_rel_def)
next
  case False
  then show ?thesis
    using sample_loop_corresponds[OF assms] by (simp add: unbiasedRandomUint32FromRange_def)
qed

lemma converted_corresponds:
  "corresponds R f g \<Longrightarrow> corresponds R (converted cv f) (converted cv g)"
  by (simp add: corresponds_def converted_def case_prod_beta)

lemma converted_id: "converted (\<lambda>x. x) f = f"
  by (rule ext) (simp add: converted_def)

lemma outcome_rel_mapI:
  assumes "outcome_rel R x y"
  shows "outcome_rel R (case x of None \<Rightarrow> None | Some (v, s') \<Rightarrow> Some (F v, s'))
           (case y of None \<Rightarrow> None | Some (v, t') \<Rightarrow> Some (F v, t'))"
  using assms by (auto simp: outcome_rel_def split: option.splits)

lemma outcome_rel_as_number:
  "outcome_rel R x y \<Longrightarrow> outcome_rel R (as_number x) (as_number y)"
  by (auto simp: outcome_rel_def as_number_def split: option.splits)

lemma fract32_samples:
  assumes "minInclusive \<noteq> None \<or> maxExclusive \<noteq> None"
    and "assertSafeRangeFract32 (nullish minInclusive MIN_SAFE_FRACT32_INCLUSIVE)
           (nullish maxExclusive MAX_SAFE_FRACT32_EXCLUSIVE) = Inr u"
  shows "unbiasedRandomFract32 minInclusive maxExclusive f s =
     (case unbiasedRandomUint32FromRange
        ((if nullish maxExclusive MAX_SAFE_FRACT32_EXCLUSIVE = MAX_SAFE_FRACT32_EXCLUSIVE
          then MAX_SAFE_UINT32_EXCLUSIVE
          else bitwiseFract32ToUint32 (nullish maxExclusive MAX_SAFE_FRACT32_EXCLUSIVE))
         - bitwiseFract32ToUint32 (nullish minInclusive MIN_SAFE_FRACT32_INCLUSIVE))
        (converted bitwiseFract32ToUint32 f) s of
        None \<Rightarrow> None
      | Some (v, s') \<Rightarrow>
          Some (Inr (nullish minInclusive MIN_SAFE_FRACT32_INCLUSIVE + bitwiseUint32ToFract32 v), s'))"
  using assms by (auto simp: unbiasedRandomFract32_def Let_def)

lemma int32_samples:
  assumes "minInclusive \<noteq> None \<or> maxExclusive \<noteq> None"
    and "assertSafeRangeInt32 (nullish minInclusive MIN_SAFE_INT32_INCLUSIVE)
           (nullish maxExclusive MAX_SAFE_INT32_EXCLUSIVE) = Inr u"
  shows "unbiasedRandomInt32 minInclusive maxExclusive f s =
     (case unbiasedRandomUint32FromRange
        (nullish maxExclusive MAX_SAFE_INT32_EXCLUSIVE + 2 ^ 31
         - (nullish minInclusive MIN_SAFE_INT32_INCLUSIVE + 2 ^ 31))
        (converted (\<lambda>x. x + 2 ^ 31) f) s of
        None \<Rightarrow> None
      | Some (v, s') \<Rightarrow>
          Some (Inr (js_or (nullish minInclusive MIN_SAFE_INT32_INCLUSIVE + v) 0), s'))"
  using assms by (auto simp: unbiasedRandomInt32_def Let_def)

lemma uint32_samples:
  assumes "minInclusive \<noteq> None \<or> maxExclusive \<noteq> None"
    and "assertSafeRangeUint32 (nullish minInclusive (of_int MIN_SAFE_UINT32_INCLUSIVE))
           (nullish maxExclusive (of_int MAX_SAFE_UINT32_EXCLUSIVE)) = Inr u"
  shows "unbiasedRandomUint32 minInclusive maxExclusive f s =
     (case unbiasedRandomUint32FromRange
        (\<lfloor>nullish maxExclusive (of_int MAX_SAFE_UINT32_EXCLUSIVE)\<rfloor>
         - \<lfloor>nullish minInclusive (of_int MIN_SAFE_UINT32_INCLUSIVE)\<rfloor>) f s of
        None \<Rightarrow> None
      | Some (v, s') \<Rightarrow>
          Some (Inr (\<lfloor>nullish minInclusive (of_int MIN_SAFE_UINT32_INCLUSIVE)\<rfloor> + v), s'))"
  using assms by (auto simp: unbiasedRandomUint32_def Let_def)

lemma fract32_corresponds:
  assumes c: "corresponds R f g" and r: "R s t"
  shows "outcome_rel R (unbiasedRandomFract32 lo hi f s) (unbiasedRandomFract32 lo hi g t)"
proof (cases "lo = None \<and> hi = None")
  case True
  then show ?thesis
    using correspondsD[OF c r]
    by (simp add: unbiasedRandomFract32_def outcome_rel_def case_prod_beta)
next
  case False
  then have sup: "lo \<noteq> None \<or> hi \<noteq> None" by simp
  show ?thesis
  proof (cases "assertSafeRangeFract32 (nullish lo MIN_SAFE_FRACT32_INCLUSIVE)
                  (nullish hi MAX_SAFE_FRACT32_EXCLUSIVE)")
    case (Inl e)
    show ?thesis unfolding fract32_throws[OF sup Inl] using r by (simp add: outcome_rel_def)
  next
    case (Inr u)
    show ?thesis unfolding fract32_samples[OF sup Inr]
      by (rule outcome_rel_mapI[OF sampler_corresponds[OF converted_corresponds[OF c] r]])
  qed
qed

lemma int32_corresponds:
  assumes c: "corresponds R f g" and r: "R s t"
  shows "outcome_rel R (unbiasedRandomInt32 lo hi f s) (unbiasedRandomInt32 lo hi g t)"
proof (cases "lo = None \<and> hi = None")
  case True
  then show ?thesis
    using correspondsD[OF c r]
    by (simp add: unbiasedRandomInt32_def outcome_rel_def case_prod_beta)
next
  case False
  then have sup: "lo \<noteq> None \<or> hi \<noteq> None" by simp
  show ?thesis
  proof (cases "assertSafeRangeInt32 (nullish lo MIN_SAFE_INT32_INCLUSIVE)
                  (nullish hi MAX_SAFE_INT32_EXCLUSIVE)")
    case (Inl e)
    show ?thesis unfolding int32_throws[OF sup Inl] using r by (simp add: outcome_rel_def)
  next
    case (Inr u)
    show ?thesis unfolding int32_samples[OF sup Inr]
      by (rule outcome_rel_mapI[OF sampler_corresponds[OF converted_corresponds[OF c] r]])
  qed
qed

lemma uint32_corresponds:
  assumes c: "corresponds R f g" and r: "R s t"
  shows "outcome_rel R (unbiasedRandomUint32 lo hi f s) (unbiasedRandomUint32 lo hi g t)"
proof (cases "lo = None \<and> hi = None")
  case True
  then show ?thesis
    using correspondsD[OF c r]
    by (simp add: unbiasedRandomUint32_def outcome_rel_def case_prod_beta)
next
  case False
  then have sup: "lo \<noteq> None \<or> hi \<noteq> None" by simp
  show ?thesis
  proof (cases "assertSafeRangeUint32 (nullish lo (of_int MIN_SAFE_UINT32_INCLUSIVE))
                  (nullish hi (of_int MAX_SAFE_UINT32_EXCLUSIVE))")
    case (Inl e)
    show ?thesis unfolding uint32_throws[OF sup Inl] using r by (simp add: outcome_rel_def)
  next
    case (Inr u)
    show ?thesis unfolding uint32_samples[OF sup Inr]
      by (rule outcome_rel_mapI[OF sampler_corresponds[OF c r]])
  qed
qed

section \<open>The lifecycle properties follow from the conditions on a class\<close>

lemma outcome_relD:
  assumes "outcome_rel R x y" and "x = Some (r, s)"
  shows "\<exists>t. y = Some (r, t) \<and> R s t"
  using assms by (auto simp: outcome_rel_def split: option.splits)

lemma outcome_rel_NoneD:
  assumes "outcome_rel R x y" and "x = None"
  shows "y = None"
  using assms by (simp add: outcome_rel_def)

lemma class_ok_sym:
  assumes "class_ok C view live sep" and "sep a b h"
  shows "sep b a h \<and> live a h \<and> live b h"
  using assms unfolding class_ok_def by (elim conjE) (erule allE[of _ a], blast)

lemma class_ok_det:
  assumes "class_ok C view live sep" and "live a h" and "live b k" and "view a h = view b k"
  shows "outcome_rel (\<lambda>h' k'. live a h' \<and> live b k' \<and> view a h' = view b k')
           (invoke C c a h) (invoke C c b k)"
proof -
  from assms(1) have
    "\<forall>c a b h k. live a h \<and> live b k \<and> view a h = view b k \<longrightarrow>
          outcome_rel (\<lambda>h' k'. live a h' \<and> live b k' \<and> view a h' = view b k')
            (invoke C c a h) (invoke C c b k)"
    unfolding class_ok_def by (elim conjE)
  then show ?thesis using assms(2-4) by (elim allE[of _ c] allE[of _ a] allE[of _ b] allE[of _ h] allE[of _ k]) simp
qed

lemma class_ok_frame:
  assumes "class_ok C view live sep" and "sep a b h" and "invoke C c a h = Some (r, h')"
  shows "sep a b h' \<and> view b h' = view b h"
proof -
  from assms(1) have
    "\<forall>c a b h r h'. sep a b h \<and> invoke C c a h = Some (r, h') \<longrightarrow>
          sep a b h' \<and> view b h' = view b h"
    unfolding class_ok_def by (elim conjE)
  then show ?thesis using assms(2,3) by blast
qed

lemma class_ok_clone:
  assumes "class_ok C view live sep" and "live a h" and "cloneState C a h = (b, h')"
  shows "live b h'" and "view b h' = view a h"
    and "\<And>g. live g h \<Longrightarrow> sep g b h' \<and> view g h' = view g h"
proof -
  from assms(1) have
    "\<forall>a h b h'. live a h \<and> cloneState C a h = (b, h') \<longrightarrow>
          live b h' \<and> view b h' = view a h \<and>
          (\<forall>g. live g h \<longrightarrow> sep g b h' \<and> view g h' = view g h)"
    unfolding class_ok_def by (elim conjE)
  then have r: "live b h' \<and> view b h' = view a h \<and>
          (\<forall>g. live g h \<longrightarrow> sep g b h' \<and> view g h' = view g h)"
    using assms(2,3) by blast
  from r show "live b h'" by simp
  from r show "view b h' = view a h" by simp
  from r show "\<And>g. live g h \<Longrightarrow> sep g b h' \<and> view g h' = view g h" by simp
qed

lemma class_ok_build:
  assumes "class_ok C view live sep" and "buildStateFromSeed C sd h = (a, h')"
  shows "live a h'"
    and "\<And>g. live g h \<Longrightarrow> sep g a h' \<and> view g h' = view g h"
proof -
  from assms(1) have
    "\<forall>sd h a h'. buildStateFromSeed C sd h = (a, h') \<longrightarrow>
          live a h' \<and> (\<forall>g. live g h \<longrightarrow> sep g a h' \<and> view g h' = view g h)"
    unfolding class_ok_def by (elim conjE)
  then have r: "live a h' \<and> (\<forall>g. live g h \<longrightarrow> sep g a h' \<and> view g h' = view g h)"
    using assms(2) by blast
  from r show "live a h'" by simp
  from r show "\<And>g. live g h \<Longrightarrow> sep g a h' \<and> view g h' = view g h" by simp
qed

lemma class_ok_build_det:
  assumes "class_ok C view live sep" and "buildStateFromSeed C sd h = (a, h')"
    and "buildStateFromSeed C sd k = (b, k')"
  shows "view a h' = view b k'"
proof -
  from assms(1) have
    "\<forall>sd h k a h' b k'. buildStateFromSeed C sd h = (a, h') \<and>
          buildStateFromSeed C sd k = (b, k') \<longrightarrow> view a h' = view b k'"
    unfolding class_ok_def by (elim conjE)
  then show ?thesis using assms(2,3) by blast
qed

lemma run_Cons_None:
  assumes "invoke C c g h = None"
  shows "run C g (c # cs) h = None"
  using assms by simp

lemma run_Cons_Some:
  assumes "invoke C c g h = Some (r, h1)"
  shows "map_option fst (run C g (c # cs) h) = map_option ((#) r) (map_option fst (run C g cs h1))"
  using assms by (cases "run C g cs h1") auto

lemma lockstep_Cons_None1:
  assumes "invoke C c a h = None"
  shows "lockstep C a b (c # cs) h = None"
  using assms by simp

lemma lockstep_Cons_Some:
  assumes "invoke C c a h = Some (ra, h1)" and "invoke C c b h1 = Some (rb, h2)"
  shows "map_option fst (lockstep C a b (c # cs) h)
           = map_option ((#) (ra, rb)) (map_option fst (lockstep C a b cs h2))"
  using assms by (cases "lockstep C a b cs h2") auto

lemma pairs_of_run:
  "map_option (\<lambda>(rs, h'). map (\<lambda>r. (r, r)) rs) x = map_option (map (\<lambda>r. (r, r))) (map_option fst x)"
  by (cases x) auto

text \<open>A call keeps a live generator live.\<close>

lemma invoke_live:
  assumes ok: "class_ok C view live sep" and l: "live a h" and i: "invoke C c a h = Some (r, h')"
  shows "live a h'"
  using outcome_relD[OF class_ok_det[OF ok l l refl] i] i by auto

lemma run_live:
  assumes ok: "class_ok C view live sep"
  shows "live a h \<Longrightarrow> run C a cs h = Some (rs, h') \<Longrightarrow> live a h'"
proof (induction cs arbitrary: h rs)
  case Nil
  then show ?case by simp
next
  case (Cons c cs)
  from Cons.prems(2) obtain r h1 where i: "invoke C c a h = Some (r, h1)"
    by (cases "invoke C c a h") auto
  from Cons.prems(2) i obtain rs1 where "run C a cs h1 = Some (rs1, h')"
    by (cases "run C a cs h1") auto
  from Cons.IH[OF invoke_live[OF ok Cons.prems(1) i] this] show ?case .
qed

text \<open>The results of a list of calls are a function of the view.\<close>

lemma run_det:
  assumes ok: "class_ok C view live sep"
  shows "live a h \<Longrightarrow> live b k \<Longrightarrow> view a h = view b k \<Longrightarrow>
         map_option fst (run C a cs h) = map_option fst (run C b cs k)"
proof (induction cs arbitrary: h k)
  case Nil
  show ?case by simp
next
  case (Cons c cs)
  note d = class_ok_det[OF ok Cons.prems, of c]
  show ?case
  proof (cases "invoke C c a h")
    case None
    have nb: "invoke C c b k = None" by (rule outcome_rel_NoneD[OF d None])
    show ?thesis unfolding run_Cons_None[OF None] run_Cons_None[OF nb] by simp
  next
    case (Some p)
    obtain r h1 where p: "invoke C c a h = Some (r, h1)" using Some by (cases p) simp
    from outcome_relD[OF d p] obtain k1 where
      ib: "invoke C c b k = Some (r, k1)" and l: "live a h1" "live b k1" "view a h1 = view b k1"
      by auto
    show ?thesis unfolding run_Cons_Some[OF p] run_Cons_Some[OF ib] Cons.IH[OF l] by (rule refl)
  qed
qed

text \<open>Two separate generators with equal views, called in lockstep, give equal results,
  which are the results of the first called alone.\<close>

lemma lockstep_twins:
  assumes ok: "class_ok C view live sep"
  shows "sep a b h \<Longrightarrow> view a h = view b h \<Longrightarrow>
         map_option fst (lockstep C a b cs h)
           = map_option (map (\<lambda>r. (r, r))) (map_option fst (run C a cs h))"
proof (induction cs arbitrary: h)
  case Nil
  show ?case by simp
next
  case (Cons c cs)
  note s = class_ok_sym[OF ok Cons.prems(1)]
  show ?case
  proof (cases "invoke C c a h")
    case None
    show ?thesis unfolding run_Cons_None[OF None] lockstep_Cons_None1[OF None] by simp
  next
    case (Some p)
    obtain r h1 where ia: "invoke C c a h = Some (r, h1)" using Some by (cases p) simp
    note f1 = class_ok_frame[OF ok Cons.prems(1) ia]
    note s1 = class_ok_sym[OF ok conjunct1[OF f1]]
    have v1: "view a h = view b h1" using f1 Cons.prems(2) by simp
    have la: "live a h" using s by simp
    have lb1: "live b h1" using s1 by simp
    note d = class_ok_det[OF ok la lb1 v1, of c]
    from outcome_relD[OF d ia] obtain h2 where
      ib: "invoke C c b h1 = Some (r, h2)" and v2: "view a h1 = view b h2"
      by auto
    note f2 = class_ok_frame[OF ok conjunct1[OF s1] ib]
    note s2 = class_ok_sym[OF ok conjunct1[OF f2]]
    have sep2: "sep a b h2" using s2 by simp
    have veq: "view a h2 = view b h2" using f2 v2 by simp
    have va: "view a h2 = view a h1" using f2 by simp
    have la1: "live a h1" using s1 by simp
    have la2: "live a h2" using s2 by simp
    note rd = run_det[OF ok la2 la1 va, of cs]
    show ?thesis
      unfolding run_Cons_Some[OF ia] lockstep_Cons_Some[OF ia ib] Cons.IH[OF sep2 veq] rd
      by (simp add: option.map_comp comp_def)
  qed
qed

lemma new_generator_seeded:
  assumes "opt_seed options = Some sd" and "opt_state options = None"
  shows "new_generator C randomSeed options w h
           = (fst (buildStateFromSeed C sd h), w, snd (buildStateFromSeed C sd h))"
  using assms by (simp add: new_generator_def case_prod_beta)

lemma new_generator_restored:
  assumes "opt_state options = Some e"
  shows "new_generator C randomSeed options w h
           = (fst (cloneState C e h), w, snd (cloneState C e h))"
  using assms by (simp add: new_generator_def case_prod_beta)

lemma class_ok_equal_seeds:
  assumes ok: "class_ok C view live sep"
  shows "equal_seeds_equal_outputs C randomSeed1 randomSeed2"
  unfolding equal_seeds_equal_outputs_def
proof (intro allI impI, elim conjE)
  fix sd and options1 options2 :: "'c options" and w1 w2 h a b w1' w2' h1 h2 cs
  assume o1: "opt_seed options1 = Some sd" "opt_state options1 = None"
    and o2: "opt_seed options2 = Some sd" "opt_state options2 = None"
    and n1: "new_generator C randomSeed1 options1 w1 h = (a, w1', h1)"
    and n2: "new_generator C randomSeed2 options2 w2 h1 = (b, w2', h2)"
  from n1 have b1: "buildStateFromSeed C sd h = (a, h1)" and w1: "w1' = w1"
    unfolding new_generator_seeded[OF o1] by (simp_all add: prod_eq_iff)
  from n2 have b2: "buildStateFromSeed C sd h1 = (b, h2)" and w2: "w2' = w2"
    unfolding new_generator_seeded[OF o2] by (simp_all add: prod_eq_iff)
  note la1 = class_ok_build(1)[OF ok b1]
  note fr = class_ok_build(2)[OF ok b2 la1]
  have sep2: "sep a b h2" using fr by simp
  have va: "view a h2 = view a h1" using fr by simp
  have veq: "view a h2 = view b h2" using va class_ok_build_det[OF ok b1 b2] by simp
  have la2: "live a h2" using class_ok_sym[OF ok sep2] by simp
  have twins: "map_option fst (lockstep C a b cs h2)
       = map_option (\<lambda>(rs, h'). map (\<lambda>r. (r, r)) rs) (run C a cs h2)"
    unfolding pairs_of_run by (rule lockstep_twins[OF ok sep2 veq])
  have other: "\<forall>k g w3 w3' k1. new_generator C randomSeed2 options2 w3 k = (g, w3', k1) \<longrightarrow>
       map_option fst (run C g cs k1) = map_option fst (run C a cs h2)"
  proof (intro allI impI)
    fix k g w3 w3' k1
    assume "new_generator C randomSeed2 options2 w3 k = (g, w3', k1)"
    then have b3: "buildStateFromSeed C sd k = (g, k1)"
      unfolding new_generator_seeded[OF o2] by (simp add: prod_eq_iff)
    have lg: "live g k1" by (rule class_ok_build(1)[OF ok b3])
    have vg: "view g k1 = view a h2" using class_ok_build_det[OF ok b3 b1] va by simp
    show "map_option fst (run C g cs k1) = map_option fst (run C a cs h2)"
      by (rule run_det[OF ok lg la2 vg])
  qed
  show "w1' = w1 \<and> w2' = w2 \<and>
       map_option fst (lockstep C a b cs h2)
         = map_option (\<lambda>(rs, h'). map (\<lambda>r. (r, r)) rs) (run C a cs h2) \<and>
       (\<forall>k g w3 w3' k1. new_generator C randomSeed2 options2 w3 k = (g, w3', k1) \<longrightarrow>
          map_option fst (run C g cs k1) = map_option fst (run C a cs h2))"
    by (rule conjI[OF w1 conjI[OF w2 conjI[OF twins other]]])
qed

lemma class_ok_restored:
  assumes ok: "class_ok C view live sep"
  shows "restored_state_resumes C randomSeed1 randomSeed2"
  unfolding restored_state_resumes_def
proof (intro allI impI, elim conjE)
  fix sd and options1 options2 :: "'c options" and w1 w2 h0 a w1' h1 pre outs h e h' b w2' h2 cs
  assume o1: "opt_seed options1 = Some sd" "opt_state options1 = None"
    and n1: "new_generator C randomSeed1 options1 w1 h0 = (a, w1', h1)"
    and pre: "run C a pre h1 = Some (outs, h)"
    and g: "getState C a h = (e, h')"
    and o2: "opt_state options2 = Some e"
    and n2: "new_generator C randomSeed2 options2 w2 h' = (b, w2', h2)"
  from n1 have b1: "buildStateFromSeed C sd h0 = (a, h1)"
    unfolding new_generator_seeded[OF o1] by (simp add: prod_eq_iff)
  have la1: "live a h1" by (rule class_ok_build(1)[OF ok b1])
  have la: "live a h" by (rule run_live[OF ok la1 pre])
  from g have c1: "cloneState C a h = (e, h')" by (simp add: getState_def)
  note le = class_ok_clone(1)[OF ok la c1]
  note ve = class_ok_clone(2)[OF ok la c1]
  note fa = class_ok_clone(3)[OF ok la c1 la]
  have la': "live a h'" using class_ok_sym[OF ok conjunct1[OF fa]] by simp
  have verbatim: "(b, w2', h2) = (fst (cloneState C e h'), w2, snd (cloneState C e h'))"
    using n2 unfolding new_generator_restored[OF o2] by simp
  then have c2: "cloneState C e h' = (b, h2)" by (simp add: prod_eq_iff)
  note vb = class_ok_clone(2)[OF ok le c2]
  note fb = class_ok_clone(3)[OF ok le c2 la']
  have sep2: "sep a b h2" using fb by simp
  have va: "view a h2 = view a h" using fb fa by simp
  have veq: "view a h2 = view b h2" using va vb ve by simp
  have la2: "live a h2" using class_ok_sym[OF ok sep2] by simp
  have "map_option fst (lockstep C a b cs h2)
       = map_option (\<lambda>(rs, h'). map (\<lambda>r. (r, r)) rs) (run C a cs h)"
    unfolding pairs_of_run lockstep_twins[OF ok sep2 veq] run_det[OF ok la2 la va, of cs]
    by (rule refl)
  with verbatim show "(b, w2', h2) = (fst (cloneState C e h'), w2, snd (cloneState C e h')) \<and>
       map_option fst (lockstep C a b cs h2)
         = map_option (\<lambda>(rs, h'). map (\<lambda>r. (r, r)) rs) (run C a cs h)"
    by (rule conjI)
qed

section \<open>The seven classes meet the conditions\<close>

text \<open>A class whose three public methods wrap one internal source: the outcomes of its
  calls are related as the internal sources correspond.\<close>

lemma invoke_corresponds:
  assumes nf: "\<And>lo hi g. nextFract32 C lo hi g = unbiasedRandomFract32 lo hi (converted cF (raw g))"
    and ni: "\<And>lo hi g. nextInt32 C lo hi g = unbiasedRandomInt32 lo hi (converted cI (raw g))"
    and nu: "\<And>lo hi g. nextUint32 C lo hi g = unbiasedRandomUint32 lo hi (converted cU (raw g))"
    and c: "corresponds R (raw a) (raw b)" and r: "R h k"
  shows "outcome_rel R (invoke C c a h) (invoke C c b k)"
proof (cases c)
  case (NextFract32 lo hi)
  show ?thesis unfolding NextFract32 invoke_def call.case nf
    by (rule fract32_corresponds[OF converted_corresponds[OF c] r])
next
  case (NextInt32 lo hi)
  show ?thesis unfolding NextInt32 invoke_def call.case ni
    by (rule outcome_rel_as_number[OF int32_corresponds[OF converted_corresponds[OF c] r]])
next
  case (NextUint32 lo hi)
  show ?thesis unfolding NextUint32 invoke_def call.case nu
    by (rule outcome_rel_as_number[OF uint32_corresponds[OF converted_corresponds[OF c] r]])
qed

lemma class_okI:
  assumes sym: "\<And>a b h. sep a b h \<Longrightarrow> sep b a h \<and> live a h \<and> live b h"
    and nf: "\<And>lo hi g. nextFract32 C lo hi g = unbiasedRandomFract32 lo hi (converted cF (raw g))"
    and ni: "\<And>lo hi g. nextInt32 C lo hi g = unbiasedRandomInt32 lo hi (converted cI (raw g))"
    and nu: "\<And>lo hi g. nextUint32 C lo hi g = unbiasedRandomUint32 lo hi (converted cU (raw g))"
    and det: "\<And>a b. corresponds (\<lambda>h k. live a h \<and> live b k \<and> view a h = view b k) (raw a) (raw b)"
    and frame: "\<And>a b v. corresponds (\<lambda>h k. h = k \<and> sep a b h \<and> view b h = v) (raw a) (raw a)"
    and clone: "\<And>a h b h'. live a h \<Longrightarrow> cloneState C a h = (b, h') \<Longrightarrow>
          live b h' \<and> view b h' = view a h \<and>
          (\<forall>g. live g h \<longrightarrow> sep g b h' \<and> view g h' = view g h)"
    and build: "\<And>sd h a h'. buildStateFromSeed C sd h = (a, h') \<Longrightarrow>
          live a h' \<and> (\<forall>g. live g h \<longrightarrow> sep g a h' \<and> view g h' = view g h)"
    and build_det: "\<And>sd h k a h' b k'. buildStateFromSeed C sd h = (a, h') \<Longrightarrow>
          buildStateFromSeed C sd k = (b, k') \<Longrightarrow> view a h' = view b k'"
  shows "class_ok C view live sep"
proof -
  have p1: "\<forall>a b h. sep a b h \<longrightarrow> sep b a h \<and> live a h \<and> live b h"
    using sym by (intro allI impI)
  have p2: "\<forall>c a b h k. live a h \<and> live b k \<and> view a h = view b k \<longrightarrow>
          outcome_rel (\<lambda>h' k'. live a h' \<and> live b k' \<and> view a h' = view b k')
            (invoke C c a h) (invoke C c b k)"
  proof (intro allI impI)
    fix c a b h k
    assume r: "live a h \<and> live b k \<and> view a h = view b k"
    show "outcome_rel (\<lambda>h' k'. live a h' \<and> live b k' \<and> view a h' = view b k')
            (invoke C c a h) (invoke C c b k)"
      by (rule invoke_corresponds[where raw = raw, OF nf ni nu det r])
  qed
  have p3: "\<forall>c a b h r h'. sep a b h \<and> invoke C c a h = Some (r, h') \<longrightarrow>
          sep a b h' \<and> view b h' = view b h"
  proof (intro allI impI, elim conjE)
    fix c a b h r h'
    assume s: "sep a b h" and i: "invoke C c a h = Some (r, h')"
    have r0: "h = h \<and> sep a b h \<and> view b h = view b h" using s by simp
    note o = invoke_corresponds[where raw = raw and R = "\<lambda>x y. x = y \<and> sep a b x \<and> view b x = view b h",
        OF nf ni nu frame r0, of c]
    from outcome_relD[OF o i] show "sep a b h' \<and> view b h' = view b h" by auto
  qed
  have p4: "\<forall>a h b h'. live a h \<and> cloneState C a h = (b, h') \<longrightarrow>
          live b h' \<and> view b h' = view a h \<and>
          (\<forall>g. live g h \<longrightarrow> sep g b h' \<and> view g h' = view g h)"
    using clone by (intro allI impI, elim conjE)
  have p5: "\<forall>sd h a h'. buildStateFromSeed C sd h = (a, h') \<longrightarrow>
          live a h' \<and> (\<forall>g. live g h \<longrightarrow> sep g a h' \<and> view g h' = view g h)"
    using build by (intro allI impI)
  have p6: "\<forall>sd h k a h' b k'. buildStateFromSeed C sd h = (a, h') \<and>
          buildStateFromSeed C sd k = (b, k') \<longrightarrow> view a h' = view b k'"
    using build_det by (intro allI impI, elim conjE)
  show ?thesis unfolding class_ok_def
    by (rule conjI[OF p1 conjI[OF p2 conjI[OF p3 conjI[OF p4 conjI[OF p5 p6]]]]])
qed

subsection \<open>A flat state\<close>

lemma on_state_det:
  "corresponds (\<lambda>h k. flat_live a h \<and> flat_live b k \<and> flat_view a h = flat_view b k)
     (on_state m a) (on_state m b)"
  by (simp add: corresponds_def on_state_def flat_live_def flat_view_def case_prod_beta)

lemma on_state_frame:
  "corresponds (\<lambda>h k. h = k \<and> flat_sep a b h \<and> flat_view b h = v) (on_state m a) (on_state m a)"
  by (simp add: corresponds_def on_state_def flat_sep_def flat_view_def case_prod_beta)

lemma new_obj_fresh:
  assumes "new_obj v h = (a, h')"
  shows "flat_live a h' \<and> flat_view a h' = v \<and>
         (\<forall>g. flat_live g h \<longrightarrow> flat_sep g a h' \<and> flat_view g h' = flat_view g h)"
  using assms by (auto simp: new_obj_def flat_live_def flat_view_def flat_sep_def nth_append)

lemma flat_class_ok:
  assumes cl: "cloneState C = spread_state"
    and bd: "buildStateFromSeed C = (\<lambda>seed. new_obj (build seed))"
    and nf: "\<And>lo hi g. nextFract32 C lo hi g = unbiasedRandomFract32 lo hi (converted cF (on_state m g))"
    and ni: "\<And>lo hi g. nextInt32 C lo hi g = unbiasedRandomInt32 lo hi (converted cI (on_state m g))"
    and nu: "\<And>lo hi g. nextUint32 C lo hi g = unbiasedRandomUint32 lo hi (converted cU (on_state m g))"
  shows "class_ok C flat_view flat_live flat_sep"
proof (rule class_okI[where raw = "on_state m", OF _ nf ni nu on_state_det on_state_frame])
  fix a b and h :: "'a heap"
  assume "flat_sep a b h"
  then show "flat_sep b a h \<and> flat_live a h \<and> flat_live b h"
    by (simp add: flat_sep_def flat_live_def)
next
  fix a b and h h' :: "'a heap"
  assume "flat_live a h" and "cloneState C a h = (b, h')"
  then have "new_obj (flat_view a h) h = (b, h')"
    by (simp add: cl spread_state_def flat_view_def)
  from new_obj_fresh[OF this]
  show "flat_live b h' \<and> flat_view b h' = flat_view a h \<and>
          (\<forall>g. flat_live g h \<longrightarrow> flat_sep g b h' \<and> flat_view g h' = flat_view g h)" .
next
  fix sd a and h h' :: "'a heap"
  assume "buildStateFromSeed C sd h = (a, h')"
  then have "new_obj (build sd) h = (a, h')" by (simp add: bd)
  from new_obj_fresh[OF this]
  show "flat_live a h' \<and> (\<forall>g. flat_live g h \<longrightarrow> flat_sep g a h' \<and> flat_view g h' = flat_view g h)"
    by simp
next
  fix sd a b and h k h' k' :: "'a heap"
  assume "buildStateFromSeed C sd h = (a, h')" and "buildStateFromSeed C sd k = (b, k')"
  then have "new_obj (build sd) h = (a, h')" and "new_obj (build sd) k = (b, k')"
    by (simp_all add: bd)
  from new_obj_fresh[OF this(1)] new_obj_fresh[OF this(2)]
  show "flat_view a h' = flat_view b k'" by simp
qed

lemma Alea_ok: "class_ok (Alea fl numToString) flat_view flat_live flat_sep"
  by (rule flat_class_ok[where m = "Alea_internalNextFract32 fl" and cF = "\<lambda>x. x"])
     (simp_all add: Alea_def converted_id)

lemma Mulberry32_ok: "class_ok (Mulberry32 fl) flat_view flat_live flat_sep"
  by (rule flat_class_ok[where m = "Mulberry32_internalNextUint32 fl" and cU = "\<lambda>x. x"])
     (simp_all add: Mulberry32_def converted_id)

lemma Tychei_ok: "class_ok (Tychei numToString) flat_view flat_live flat_sep"
  by (rule flat_class_ok[where m = Tychei_internalNextInt32 and cI = "\<lambda>x. x"])
     (simp_all add: Tychei_def converted_id)

lemma Xor128_ok: "class_ok (Xor128 numToString) flat_view flat_live flat_sep"
  by (rule flat_class_ok[where m = Xor128_internalNextInt32 and cI = "\<lambda>x. x"])
     (simp_all add: Xor128_def converted_id)

lemma XorWow_ok: "class_ok (XorWow numToString) flat_view flat_live flat_sep"
  by (rule flat_class_ok[where m = XorWow_internalNextInt32 and cI = "\<lambda>x. x"])
     (simp_all add: XorWow_def converted_id)

subsection \<open>A state with an array\<close>

lemma on_array_state_eq:
  "on_array_state X m a h =
     (fst (m (arrs h ! X (objs h ! a)) (objs h ! a)),
      h\<lparr>arrs := (arrs h)[X (objs h ! a) := fst (snd (m (arrs h ! X (objs h ! a)) (objs h ! a)))],
        objs := (objs h)[a := snd (snd (m (arrs h ! X (objs h ! a)) (objs h ! a)))]\<rparr>)"
  by (simp add: on_array_state_def Let_def case_prod_beta)

lemma on_array_state_det:
  assumes m1: "\<And>xs st. X (snd (snd (m xs st))) = X st"
    and m2: "\<And>xs st st'. flat st = flat st' \<Longrightarrow>
          fst (m xs st) = fst (m xs st') \<and> fst (snd (m xs st)) = fst (snd (m xs st')) \<and>
          flat (snd (snd (m xs st))) = flat (snd (snd (m xs st')))"
  shows "corresponds
     (\<lambda>h k. array_live X a h \<and> array_live X b k \<and> array_view X flat a h = array_view X flat b k)
     (on_array_state X m a) (on_array_state X m b)"
  unfolding corresponds_def
proof (intro allI impI, elim conjE)
  fix h k
  assume la: "array_live X a h" and lb: "array_live X b k"
    and v: "array_view X flat a h = array_view X flat b k"
  from v have xs: "arrs h ! X (objs h ! a) = arrs k ! X (objs k ! b)"
    and f: "flat (objs h ! a) = flat (objs k ! b)"
    by (simp_all add: array_view_def)
  note e = m2[OF f, of "arrs k ! X (objs k ! b)"]
  show "fst (on_array_state X m a h) = fst (on_array_state X m b k) \<and>
        (array_live X a (snd (on_array_state X m a h)) \<and>
         array_live X b (snd (on_array_state X m b k)) \<and>
         array_view X flat a (snd (on_array_state X m a h))
           = array_view X flat b (snd (on_array_state X m b k)))"
    using la lb e unfolding on_array_state_eq xs
    by (simp add: array_live_def array_view_def m1)
qed

lemma on_array_state_frame:
  assumes m1: "\<And>xs st. X (snd (snd (m xs st))) = X st"
  shows "corresponds (\<lambda>h k. h = k \<and> array_sep X a b h \<and> array_view X flat b h = v)
     (on_array_state X m a) (on_array_state X m a)"
  unfolding corresponds_def
proof (intro allI impI, elim conjE)
  fix h k
  assume hk: "h = k" and s: "array_sep X a b h" and vb: "array_view X flat b h = v"
  show "fst (on_array_state X m a h) = fst (on_array_state X m a k) \<and>
        (snd (on_array_state X m a h) = snd (on_array_state X m a k) \<and>
         array_sep X a b (snd (on_array_state X m a h)) \<and>
         array_view X flat b (snd (on_array_state X m a h)) = v)"
    using s vb unfolding hk[symmetric] on_array_state_eq
    by (simp add: array_sep_def array_live_def array_view_def m1)
qed

lemma new_array_state_fresh:
  assumes mkX: "\<And>x f. X (mk x f) = x" and mkf: "\<And>x f. flat (mk x f) = f"
    and n: "(case new_arr xs h of (X', h1) \<Rightarrow> new_obj (mk X' f) h1) = (a, h')"
  shows "array_live X a h' \<and> array_view X flat a h' = (xs, f) \<and>
         (\<forall>g. array_live X g h \<longrightarrow>
            array_sep X g a h' \<and> array_view X flat g h' = array_view X flat g h)"
proof -
  from n have a: "a = length (objs h)"
    and h': "h' = h\<lparr>arrs := arrs h @ [xs], objs := objs h @ [mk (length (arrs h)) f]\<rparr>"
    by (simp_all add: new_arr_def new_obj_def)
  show ?thesis unfolding a h'
    by (simp add: array_live_def array_view_def array_sep_def nth_append mkX mkf)
qed

lemma array_class_ok:
  assumes mkX: "\<And>x f. X (mk x f) = x" and mkf: "\<And>x f. flat (mk x f) = f"
    and m1: "\<And>xs st. X (snd (snd (m xs st))) = X st"
    and m2: "\<And>xs st st'. flat st = flat st' \<Longrightarrow>
          fst (m xs st) = fst (m xs st') \<and> fst (snd (m xs st)) = fst (snd (m xs st')) \<and>
          flat (snd (snd (m xs st))) = flat (snd (snd (m xs st')))"
    and cl: "\<And>state h. cloneState C state h =
          (case new_arr (arrs h ! X (objs h ! state)) h of
             (X', h1) \<Rightarrow> new_obj (mk X' (flat (objs h ! state))) h1)"
    and bd: "\<And>seed h. buildStateFromSeed C seed h =
          (case new_arr (fst (build seed)) h of
             (X', h1) \<Rightarrow> new_obj (mk X' (snd (build seed))) h1)"
    and nf: "\<And>lo hi g. nextFract32 C lo hi g
          = unbiasedRandomFract32 lo hi (converted cF (on_array_state X m g))"
    and ni: "\<And>lo hi g. nextInt32 C lo hi g
          = unbiasedRandomInt32 lo hi (converted cI (on_array_state X m g))"
    and nu: "\<And>lo hi g. nextUint32 C lo hi g
          = unbiasedRandomUint32 lo hi (converted cU (on_array_state X m g))"
  shows "class_ok C (array_view X flat) (array_live X) (array_sep X)"
proof (rule class_okI[where raw = "on_array_state X m", OF _ nf ni nu
        on_array_state_det[of X m flat, OF m1 m2] on_array_state_frame[of X m, OF m1]])
  fix a b and h
  assume "array_sep X a b h"
  then show "array_sep X b a h \<and> array_live X a h \<and> array_live X b h"
    by (simp add: array_sep_def)
next
  fix a b and h h'
  assume "array_live X a h" and c: "cloneState C a h = (b, h')"
  from new_array_state_fresh[of X mk flat, OF mkX mkf c[unfolded cl]]
  show "array_live X b h' \<and> array_view X flat b h' = array_view X flat a h \<and>
          (\<forall>g. array_live X g h \<longrightarrow>
             array_sep X g b h' \<and> array_view X flat g h' = array_view X flat g h)"
    by (simp add: array_view_def)
next
  fix sd a and h h'
  assume b: "buildStateFromSeed C sd h = (a, h')"
  from new_array_state_fresh[of X mk flat, OF mkX mkf b[unfolded bd]]
  show "array_live X a h' \<and>
          (\<forall>g. array_live X g h \<longrightarrow>
             array_sep X g a h' \<and> array_view X flat g h' = array_view X flat g h)"
    by simp
next
  fix sd a b and h k h' k'
  assume b1: "buildStateFromSeed C sd h = (a, h')" and b2: "buildStateFromSeed C sd k = (b, k')"
  from new_array_state_fresh[of X mk flat, OF mkX mkf b1[unfolded bd]]
       new_array_state_fresh[of X mk flat, OF mkX mkf b2[unfolded bd]]
  show "array_view X flat a h' = array_view X flat b k'" by simp
qed

lemma XorShift7_ok:
  "class_ok (XorShift7 numToString) (array_view xs7_X xs7_i) (array_live xs7_X) (array_sep xs7_X)"
  by (rule array_class_ok[where m = XorShift7_internalNextInt32 and cI = "\<lambda>x. x"
        and mk = "\<lambda>x f. \<lparr>xs7_X = x, xs7_i = f\<rparr>"
        and build = "XorShift7_buildStateFromSeed numToString"])
     (simp_all add: XorShift7_def converted_id XorShift7_internalNextInt32_def case_prod_beta)

lemma Xor4096_ok:
  "class_ok (Xor4096 numToString) (array_view x4096_X (\<lambda>state. (x4096_i state, x4096_w state)))
     (array_live x4096_X) (array_sep x4096_X)"
  by (rule array_class_ok[where m = Xor4096_internalNextInt32 and cI = "\<lambda>x. x"
        and mk = "\<lambda>x f. \<lparr>x4096_X = x, x4096_i = fst f, x4096_w = snd f\<rparr>"
        and build = "\<lambda>seed. (fst (Xor4096_buildStateFromSeed numToString seed),
                              snd (Xor4096_buildStateFromSeed numToString seed))"])
     (simp_all add: Xor4096_def converted_id Xor4096_internalNextInt32_def case_prod_beta)

section \<open>Determinism and resumption of the seven generators\<close>

text \<open>
  Claim C5.  For each of the seven seeded generators (Alea, Mulberry32, Tyche-i, Xor128,
  XorWow, XorShift7, Xor4096), for every seed and every list of calls of any length: two
  generators constructed from equal seeds give, call by call in lockstep, the same result
  (value returned or error thrown), and both calls return or neither does.  The results are
  those the first generator gives when called alone, and those of a generator constructed
  from the seed anywhere else; the construction consults no seed function and no entropy
  source.  This holds whatever the rounding of the floating-point operations and the
  printing of numbers are.
\<close>

theorem equal_seeds_give_equal_output_sequences:
  "equal_seeds_equal_outputs (Alea fl numToString) randomSeed1 randomSeed2 \<and>
   equal_seeds_equal_outputs (Mulberry32 fl) randomSeed1 randomSeed2 \<and>
   equal_seeds_equal_outputs (Tychei numToString) randomSeed1 randomSeed2 \<and>
   equal_seeds_equal_outputs (Xor128 numToString) randomSeed1 randomSeed2 \<and>
   equal_seeds_equal_outputs (XorWow numToString) randomSeed1 randomSeed2 \<and>
   equal_seeds_equal_outputs (XorShift7 numToString) randomSeed1 randomSeed2 \<and>
   equal_seeds_equal_outputs (Xor4096 numToString) randomSeed1 randomSeed2"
  by (intro conjI class_ok_equal_seeds[OF Alea_ok] class_ok_equal_seeds[OF Mulberry32_ok]
        class_ok_equal_seeds[OF Tychei_ok] class_ok_equal_seeds[OF Xor128_ok]
        class_ok_equal_seeds[OF XorWow_ok] class_ok_equal_seeds[OF XorShift7_ok]
        class_ok_equal_seeds[OF Xor4096_ok])

theorem equal_seeds_give_equal_output_sequences_witness:
  "new_generator (Mulberry32 (\<lambda>x. x)) (\<lambda>w. (NumSeed 0, w))
      \<lparr>opt_seed = Some (NumSeed 123), opt_seedFn = None, opt_state = None\<rparr> ()
      \<lparr>objs = [], arrs = []\<rparr>
     = (0, (), \<lparr>objs = [\<lparr>mulberry32_seed = 123\<rparr>], arrs = []\<rparr>) \<and>
   new_generator (Mulberry32 (\<lambda>x. x)) (\<lambda>w. (NumSeed 0, w))
      \<lparr>opt_seed = Some (NumSeed 123), opt_seedFn = Some (\<lambda>w. (NumSeed 7, w)), opt_state = None\<rparr> ()
      \<lparr>objs = [\<lparr>mulberry32_seed = 123\<rparr>], arrs = []\<rparr>
     = (1, (), \<lparr>objs = [\<lparr>mulberry32_seed = 123\<rparr>, \<lparr>mulberry32_seed = 123\<rparr>], arrs = []\<rparr>) \<and>
   map_option fst
      (lockstep (Mulberry32 (\<lambda>x. x)) 0 1 [NextInt32 None None, NextUint32 None None]
         \<lparr>objs = [\<lparr>mulberry32_seed = 123\<rparr>, \<lparr>mulberry32_seed = 123\<rparr>], arrs = []\<rparr>)
     = Some [(Inr (- 913747320), Inr (- 913747320)), (Inr 766838775, Inr 766838775)]"
  (is "?n1 \<and> ?n2 \<and> ?l")
proof -
  have n1: ?n1 by code_simp
  have n2: ?n2 by code_simp
  have r: "map_option fst
      (run (Mulberry32 (\<lambda>x. x)) 0 [NextInt32 None None, NextUint32 None None]
         \<lparr>objs = [\<lparr>mulberry32_seed = 123\<rparr>, \<lparr>mulberry32_seed = 123\<rparr>], arrs = []\<rparr>)
     = Some [Inr (- 913747320), Inr 766838775]"
    by code_simp
  have o1: "opt_seed \<lparr>opt_seed = Some (NumSeed 123), opt_seedFn = None :: (unit \<Rightarrow> seed \<times> unit) option,
                       opt_state = None\<rparr> = Some (NumSeed 123)"
    and o2: "opt_state \<lparr>opt_seed = Some (NumSeed 123), opt_seedFn = None :: (unit \<Rightarrow> seed \<times> unit) option,
                       opt_state = None\<rparr> = None"
    and o3: "opt_seed \<lparr>opt_seed = Some (NumSeed 123), opt_seedFn = Some (\<lambda>w :: unit. (NumSeed 7, w)),
                       opt_state = None\<rparr> = Some (NumSeed 123)"
    and o4: "opt_state \<lparr>opt_seed = Some (NumSeed 123), opt_seedFn = Some (\<lambda>w :: unit. (NumSeed 7, w)),
                       opt_state = None\<rparr> = None"
    by simp_all
  note t = equal_seeds_give_equal_output_sequences[THEN conjunct2, THEN conjunct1,
      unfolded equal_seeds_equal_outputs_def, rule_format,
      OF conjI[OF o1 conjI[OF o2 conjI[OF o3 conjI[OF o4 conjI[OF n1 n2]]]]]]
  have l: ?l unfolding t[THEN conjunct2, THEN conjunct2, THEN conjunct1] pairs_of_run r by simp
  show ?thesis by (rule conjI[OF n1 conjI[OF n2 l]])
qed

text \<open>
  Claim C6.  For each of the seven seeded generators and every seed: a generator is
  constructed from the seed and advanced by any calls; a second generator is constructed
  from the first one's \<^verbatim>\<open>getState()\<close> export.  Then the second constructor only cloned the
  export (it built no state from a seed, the seed and the seed function of its options and
  the entropy source played no part), and on every subsequent list of calls made in
  lockstep the two generators give the same result call by call, which is the result the
  original generator gives from the state it had at the export when it is called alone.
\<close>

theorem restored_state_resumes_the_sequence:
  "restored_state_resumes (Alea fl numToString) randomSeed1 randomSeed2 \<and>
   restored_state_resumes (Mulberry32 fl) randomSeed1 randomSeed2 \<and>
   restored_state_resumes (Tychei numToString) randomSeed1 randomSeed2 \<and>
   restored_state_resumes (Xor128 numToString) randomSeed1 randomSeed2 \<and>
   restored_state_resumes (XorWow numToString) randomSeed1 randomSeed2 \<and>
   restored_state_resumes (XorShift7 numToString) randomSeed1 randomSeed2 \<and>
   restored_state_resumes (Xor4096 numToString) randomSeed1 randomSeed2"
  by (intro conjI class_ok_restored[OF Alea_ok] class_ok_restored[OF Mulberry32_ok]
        class_ok_restored[OF Tychei_ok] class_ok_restored[OF Xor128_ok]
        class_ok_restored[OF XorWow_ok] class_ok_restored[OF XorShift7_ok]
        class_ok_restored[OF Xor4096_ok])

theorem restored_state_resumes_the_sequence_witness:
  "new_generator (Mulberry32 (\<lambda>x. x)) (\<lambda>w. (NumSeed 0, w))
      \<lparr>opt_seed = Some (NumSeed 123), opt_seedFn = None, opt_state = None\<rparr> ()
      \<lparr>objs = [], arrs = []\<rparr>
     = (0, (), \<lparr>objs = [\<lparr>mulberry32_seed = 123\<rparr>], arrs = []\<rparr>) \<and>
   run (Mulberry32 (\<lambda>x. x)) 0 [NextInt32 None None]
      \<lparr>objs = [\<lparr>mulberry32_seed = 123\<rparr>], arrs = []\<rparr>
     = Some ([Inr (- 913747320)], \<lparr>objs = [\<lparr>mulberry32_seed = 1831565936\<rparr>], arrs = []\<rparr>) \<and>
   getState (Mulberry32 (\<lambda>x. x)) 0 \<lparr>objs = [\<lparr>mulberry32_seed = 1831565936\<rparr>], arrs = []\<rparr>
     = (1, \<lparr>objs = [\<lparr>mulberry32_seed = 1831565936\<rparr>, \<lparr>mulberry32_seed = 1831565936\<rparr>],
            arrs = []\<rparr>) \<and>
   new_generator (Mulberry32 (\<lambda>x. x)) (\<lambda>w. (NumSeed 0, w))
      \<lparr>opt_seed = Some (NumSeed 5), opt_seedFn = Some (\<lambda>w. (NumSeed 7, w)), opt_state = Some 1\<rparr> ()
      \<lparr>objs = [\<lparr>mulberry32_seed = 1831565936\<rparr>, \<lparr>mulberry32_seed = 1831565936\<rparr>], arrs = []\<rparr>
     = (2, (),
        \<lparr>objs = [\<lparr>mulberry32_seed = 1831565936\<rparr>, \<lparr>mulberry32_seed = 1831565936\<rparr>,
                 \<lparr>mulberry32_seed = 1831565936\<rparr>],
         arrs = []\<rparr>) \<and>
   map_option fst
      (lockstep (Mulberry32 (\<lambda>x. x)) 0 2 [NextUint32 None None, NextInt32 None None]
         \<lparr>objs = [\<lparr>mulberry32_seed = 1831565936\<rparr>, \<lparr>mulberry32_seed = 1831565936\<rparr>,
                  \<lparr>mulberry32_seed = 1831565936\<rparr>],
          arrs = []\<rparr>)
     = Some [(Inr 766838775, Inr 766838775), (Inr 2127363934, Inr 2127363934)]"
  (is "?n1 \<and> ?pre \<and> ?g \<and> ?n2 \<and> ?l")
proof -
  have n1: ?n1 by code_simp
  have pre: ?pre by code_simp
  have g: ?g by code_simp
  have n2: ?n2 by code_simp
  have r: "map_option fst
      (run (Mulberry32 (\<lambda>x. x)) 0 [NextUint32 None None, NextInt32 None None]
         \<lparr>objs = [\<lparr>mulberry32_seed = 1831565936\<rparr>], arrs = []\<rparr>)
     = Some [Inr 766838775, Inr 2127363934]"
    by code_simp
  have o1: "opt_seed \<lparr>opt_seed = Some (NumSeed 123), opt_seedFn = None :: (unit \<Rightarrow> seed \<times> unit) option,
                       opt_state = None\<rparr> = Some (NumSeed 123)"
    and o2: "opt_state \<lparr>opt_seed = Some (NumSeed 123), opt_seedFn = None :: (unit \<Rightarrow> seed \<times> unit) option,
                       opt_state = None\<rparr> = None"
    and o3: "opt_state \<lparr>opt_seed = Some (NumSeed 5), opt_seedFn = Some (\<lambda>w :: unit. (NumSeed 7, w)),
                       opt_state = Some 1\<rparr> = Some 1"
    by simp_all
  note t = restored_state_resumes_the_sequence[THEN conjunct2, THEN conjunct1,
      unfolded restored_state_resumes_def, rule_format,
      OF conjI[OF o1 conjI[OF o2 conjI[OF n1 conjI[OF pre conjI[OF g conjI[OF o3 n2]]]]]]]
  have l: ?l unfolding t[THEN conjunct2] pairs_of_run r by simp
  show ?thesis by (rule conjI[OF n1 conjI[OF pre conjI[OF g conjI[OF n2 l]]]])
qed

end
